theory Spec2Isabelle
  imports Complex_Main
begin

section \<open>utils.py: trim\<close>

text \<open>
  Python strings are modelled as HOL strings (lists of characters) and \<open>len\<close> as
  \<open>length\<close>. Python integers are \<open>int\<close>. A slice \<open>s[:e]\<close> or \<open>s[b:]\<close> with an
  integer bound follows Python: a negative bound counts from the end, and bounds out of
  range are clipped.
\<close>

definition py_index :: "'a list \<Rightarrow> int \<Rightarrow> nat" where
  "py_index s i = (if i < 0 then nat (int (length s) + i) else nat i)"

definition slice_to :: "'a list \<Rightarrow> int \<Rightarrow> 'a list" where
  "slice_to s e = take (py_index s e) s"

definition slice_from :: "'a list \<Rightarrow> int \<Rightarrow> 'a list" where
  "slice_from s b = drop (py_index s b) s"

text \<open>
  \<^verbatim>\<open>
  def trim(string, precision, rstart=0):
    if 3 <= precision <= len(string):
      return f"{string[:precision - rstart - 3]}...{string[len(string) - rstart:]}"
    return string
  \<close>
\<close>

definition trim3 :: "string \<Rightarrow> int \<Rightarrow> int \<Rightarrow> string" where
  "trim3 s precision rstart =
     (if 3 \<le> precision \<and> precision \<le> int (length s)
      then slice_to s (precision - rstart - 3) @ ''...'' @ slice_from s (int (length s) - rstart)
      else s)"

definition trim :: "string \<Rightarrow> int \<Rightarrow> string" where
  "trim s precision = trim3 s precision 0"

text \<open>The start positions at which \<open>sub\<close> occurs in \<open>s\<close>.\<close>

definition occurrences :: "string \<Rightarrow> string \<Rightarrow> nat list" where
  "occurrences sub s = filter (\<lambda>i. take (length sub) (drop i s) = sub) [0..<length s]"

section \<open>utils.py: SequencePointer\<close>

text \<open>
  \<^verbatim>\<open>
  class SequencePointer(list[_T]):
    def __init__(self, sequence, __cycle=True):
      self._pointer = 0
      self.__cycle = __cycle
    def next(self, n=1):
      _next = self._pointer + n
      _len = self.__len__()
      if _next + 1 > _len:
        self._pointer = _next - _len if self.__cycle else _len - 1
      else:
        self._pointer = _next
      return self._pointer
    def previous(self, n=1):
      _prev = self._pointer - n
      _len = self.__len__()
      if _prev < 0:
        self._pointer = _len + _prev if self.__cycle else 0
      else:
        self._pointer = _prev
      return self._pointer
    @pointer.setter
    def pointer(self, new_position):
      self._pointer = new_position if new_position < len(self) else len(self) - 1
  \<close>
  The object is a record of the list, the pointer and the cycle flag; each method returns
  the updated object (the value the method returns is the new pointer).
\<close>

record 'a SequencePointer =
  items :: "'a list"
  pointer :: int
  cycle :: bool

definition sp_init :: "'a list \<Rightarrow> bool \<Rightarrow> 'a SequencePointer" where
  "sp_init sequence cyc = \<lparr>items = sequence, pointer = 0, cycle = cyc\<rparr>"

definition sp_len :: "'a SequencePointer \<Rightarrow> int" where
  "sp_len s = int (length (items s))"

definition sp_next :: "'a SequencePointer \<Rightarrow> int \<Rightarrow> 'a SequencePointer" where
  "sp_next s n =
     (let nxt = pointer s + n; len = sp_len s in
      if nxt + 1 > len
      then s\<lparr>pointer := (if cycle s then nxt - len else len - 1)\<rparr>
      else s\<lparr>pointer := nxt\<rparr>)"

definition sp_previous :: "'a SequencePointer \<Rightarrow> int \<Rightarrow> 'a SequencePointer" where
  "sp_previous s n =
     (let prv = pointer s - n; len = sp_len s in
      if prv < 0
      then s\<lparr>pointer := (if cycle s then len + prv else 0)\<rparr>
      else s\<lparr>pointer := prv\<rparr>)"

definition at_end :: "'a SequencePointer \<Rightarrow> bool" where
  "at_end s = (\<not> cycle s \<and> pointer s = sp_len s - 1)"

definition sp_set_pointer :: "'a SequencePointer \<Rightarrow> int \<Rightarrow> 'a SequencePointer" where
  "sp_set_pointer s new_position =
     s\<lparr>pointer := (if new_position < sp_len s then new_position else sp_len s - 1)\<rparr>"

text \<open>The pointer addresses an element of the list.\<close>

definition in_range :: "'a SequencePointer \<Rightarrow> bool" where
  "in_range s = (0 \<le> pointer s \<and> pointer s < sp_len s)"

section \<open>Properties of SequencePointer\<close>

lemma sp_next_fields [simp]:
  "items (sp_next s n) = items s" "cycle (sp_next s n) = cycle s"
  "sp_len (sp_next s n) = sp_len s"
  by (simp_all add: sp_next_def sp_len_def Let_def)

lemma sp_previous_fields [simp]:
  "items (sp_previous s n) = items s" "cycle (sp_previous s n) = cycle s"
  "sp_len (sp_previous s n) = sp_len s"
  by (simp_all add: sp_previous_def sp_len_def Let_def)

lemma sp_next_clamp:
  "\<not> cycle s \<Longrightarrow> pointer (sp_next s n) = min (pointer s + n) (sp_len s - 1)"
  by (simp add: sp_next_def Let_def min_def)

lemma sp_previous_clamp:
  "\<not> cycle s \<Longrightarrow> pointer (sp_previous s n) = max (pointer s - n) 0"
  by (simp add: sp_previous_def Let_def max_def)

lemma mod_minus_once:
  fixes x l :: int
  assumes "0 \<le> x" "x < 2 * l" "l < x + 1"
  shows "x mod l = x - l"
proof -
  have "(x - l) mod l = x - l"
    using assms by (intro mod_pos_pos_trivial) auto
  then show ?thesis by simp
qed

lemma mod_plus_once:
  fixes x l :: int
  assumes "x < 0" "- l \<le> x"
  shows "x mod l = l + x"
proof -
  have "(l + x) mod l = l + x"
    using assms by (intro mod_pos_pos_trivial) auto
  then show ?thesis by simp
qed

lemma sp_next_wrap_once:
  assumes "cycle s" "0 \<le> pointer s + n" "pointer s + n < 2 * sp_len s"
  shows "pointer (sp_next s n) = (pointer s + n) mod sp_len s"
proof (cases "pointer s + n + 1 > sp_len s")
  case True
  with assms have "(pointer s + n) mod sp_len s = pointer s + n - sp_len s"
    by (intro mod_minus_once) auto
  with True assms show ?thesis by (simp add: sp_next_def Let_def)
next
  case False
  with assms have "(pointer s + n) mod sp_len s = pointer s + n"
    by (intro mod_pos_pos_trivial) auto
  with False assms show ?thesis by (simp add: sp_next_def Let_def)
qed

lemma sp_previous_wrap_once:
  assumes "cycle s" "pointer s - n < sp_len s" "- sp_len s \<le> pointer s - n"
  shows "pointer (sp_previous s n) = (pointer s - n) mod sp_len s"
proof (cases "pointer s - n < 0")
  case True
  with assms have "(pointer s - n) mod sp_len s = sp_len s + (pointer s - n)"
    by (intro mod_plus_once) auto
  with True assms show ?thesis by (simp add: sp_previous_def Let_def)
next
  case False
  with assms have "(pointer s - n) mod sp_len s = pointer s - n"
    by (intro mod_pos_pos_trivial) auto
  with False assms show ?thesis by (simp add: sp_previous_def Let_def)
qed

text \<open>
  Claim C1. On a non-empty list of length \<open>n\<close> with pointer \<open>p\<close> in range and a
  non-negative delta \<open>k\<close>, \<open>next(k)\<close> should leave the pointer at \<open>(p + k) mod n\<close> when
  the list is cyclic, and \<open>previous(k)\<close> at \<open>(p - k) mod n\<close>. The code subtracts (adds)
  the length once instead of reducing modulo the length: on the cyclic three-element list
  with pointer 0, \<open>next(6)\<close> leaves the pointer at 3, outside the list, where
  \<open>(0 + 6) mod 3 = 0\<close>; and \<open>previous(7)\<close> leaves it at \<open>-4\<close>, where \<open>(0 - 7) mod 3 = 2\<close>.
\<close>

theorem sp_cyclic_overshoot:
  "pointer (sp_next (sp_init ''abc'' True) 6) = 3
   \<and> (0 + 6) mod sp_len (sp_init ''abc'' True) = 0
   \<and> \<not> in_range (sp_next (sp_init ''abc'' True) 6)
   \<and> pointer (sp_previous (sp_init ''abc'' True) 7) = - 4
   \<and> (0 - 7) mod sp_len (sp_init ''abc'' True) = 2
   \<and> \<not> in_range (sp_previous (sp_init ''abc'' True) 7)"
  by (simp add: sp_next_def sp_previous_def sp_init_def sp_len_def in_range_def)

section \<open>Properties of trim\<close>

lemma occurrences_suffix_only:
  assumes "sub \<noteq> []" "hd sub \<notin> set p"
  shows "occurrences sub (p @ sub) = [length p]"
proof -
  define P where "P i = (take (length sub) (drop i (p @ sub)) = sub)" for i
  have before: "\<not> P i" if "i < length p" for i
  proof
    assume "P i"
    then have eq: "take (length sub) (drop i (p @ sub)) = sub" by (simp add: P_def)
    from that have d: "drop i (p @ sub) = p ! i # drop (Suc i) p @ sub"
      by (simp add: Cons_nth_drop_Suc)
    from assms(1) obtain m where m: "length sub = Suc m" by (cases sub) auto
    have "hd (take (length sub) (drop i (p @ sub))) = p ! i"
      unfolding d m by simp
    with eq have "p ! i = hd sub" by simp
    with that assms(2) show False using nth_mem [of i p] by simp
  qed
  have at: "P (length p)" by (simp add: P_def)
  have after: "\<not> P i" if "length p < i" for i
  proof
    assume "P i"
    then have "length (take (length sub) (drop i (p @ sub))) = length sub" by (simp add: P_def)
    with that assms(1) show False by (cases sub) auto
  qed
  have "0 < length sub" using assms(1) by simp
  then have "[length p..<length p + length sub] = length p # [Suc (length p)..<length p + length sub]"
    by (intro upt_conv_Cons) simp
  moreover have "[0..<length p + length sub] = [0..<length p] @ [length p..<length p + length sub]"
    by (intro upt_add_eq_append) simp
  ultimately have "[0..<length (p @ sub)] = [0..<length p] @ length p # [Suc (length p)..<length p + length sub]"
    by simp
  then have "filter P [0..<length (p @ sub)] = [length p]"
    using before at after by (simp add: filter_empty_conv)
  moreover have "(\<lambda>i. take (length sub) (drop i (p @ sub)) = sub) = P"
    by (rule ext) (simp only: P_def)
  ultimately show ?thesis unfolding occurrences_def by (simp only:)
qed

text \<open>
  Claim C9 (amended). For every string \<open>s\<close> and width \<open>w \<ge> 3\<close>, \<open>trim(s, w)\<close> has
  length at most \<open>w\<close>; it equals \<open>s\<close> whenever \<open>len(s) < w\<close>; whenever \<open>len(s) > w\<close>
  it is the first \<open>w - 3\<close> characters of \<open>s\<close> followed by \<open>...\<close>, and then the ellipsis
  occurs exactly once (at position \<open>w - 3\<close>) provided those first characters contain no
  full stop.
\<close>

theorem trim_amended:
  assumes "3 \<le> w"
  shows "int (length (trim s w)) \<le> w
     \<and> (int (length s) < w \<longrightarrow> trim s w = s)
     \<and> (w < int (length s) \<longrightarrow> trim s w = take (nat (w - 3)) s @ ''...'')
     \<and> (w < int (length s) \<and> CHR ''.'' \<notin> set (take (nat (w - 3)) s)
          \<longrightarrow> occurrences ''...'' (trim s w) = [nat (w - 3)])"
proof -
  have long: "trim s w = take (nat (w - 3)) s @ ''...''" if "w \<le> int (length s)"
    using that assms by (simp add: trim_def trim3_def slice_to_def slice_from_def py_index_def)
  have short: "trim s w = s" if "int (length s) < w"
    using that by (simp add: trim_def trim3_def)
  have len: "int (length (trim s w)) \<le> w"
  proof (cases "w \<le> int (length s)")
    case True
    then show ?thesis using assms by (simp add: long)
  next
    case False
    then show ?thesis by (simp add: short)
  qed
  have occ: "occurrences ''...'' (trim s w) = [nat (w - 3)]"
    if "w < int (length s)" "CHR ''.'' \<notin> set (take (nat (w - 3)) s)"
  proof -
    have "occurrences ''...'' (take (nat (w - 3)) s @ ''...'') = [length (take (nat (w - 3)) s)]"
      using that(2) by (intro occurrences_suffix_only) simp_all
    moreover have "length (take (nat (w - 3)) s) = nat (w - 3)"
      using that(1) assms by auto
    ultimately show ?thesis using that(1) by (simp add: long)
  qed
  from len short long occ show ?thesis by simp
qed

theorem trim_amended_witness:
  "(3::int) \<le> 6 \<and> trim ''abcdefgh'' 6 = ''abc...'' \<and> occurrences ''...'' (trim ''abcdefgh'' 6) = [3]
   \<and> trim ''abcd'' 6 = ''abcd''"
  using trim_amended [of 6 "''abcdefgh''"] trim_amended [of 6 "''abcd''"] by auto

text \<open>
  The claim as stated fails: a string longer than the width whose kept prefix already
  holds an ellipsis is trimmed to a string with two of them.
\<close>

theorem trim_two_ellipses:
  "(3::int) \<le> 10 \<and> 10 < int (length ''a...bcdefgh'')
   \<and> trim ''a...bcdefgh'' 10 = ''a...bcd...''
   \<and> occurrences ''...'' (trim ''a...bcdefgh'' 10) = [1, 7]"
  by (simp add: trim_def trim3_def slice_to_def slice_from_def py_index_def occurrences_def upt_rec)

text \<open>A string whose length is exactly the width is not returned as it is.\<close>

lemma trim_exact_width: "trim ''abc'' 3 = ''...''"
  by (simp add: trim_def trim3_def slice_to_def slice_from_def py_index_def)

section \<open>Exceptions and key symbols\<close>

text \<open>
  An exception raised by the code is a value; a method that can raise returns
  \<open>exn + 'a\<close> with \<open>Inl\<close> for the exception (the fields a method had already assigned
  when it raised are not kept).
\<close>

datatype exn = IndexError | TypeError string | SystemExit int | KeyboardInterrupt | OtherError string

text \<open>
  Python list indexing \<open>xs[i]\<close>: a negative index counts from the end, and an index out
  of range raises \<open>IndexError\<close>. \<open>xs.pop()\<close> raises it on the empty list.
\<close>

definition py_get :: "'a list \<Rightarrow> int \<Rightarrow> exn + 'a" where
  "py_get xs i =
     (if - int (length xs) \<le> i \<and> i < int (length xs) then Inr (xs ! py_index xs i)
      else Inl IndexError)"

definition py_pop :: "'a list \<Rightarrow> exn + ('a \<times> 'a list)" where
  "py_pop xs = (if xs = [] then Inl IndexError else Inr (last xs, butlast xs))"

text \<open>
  The members of the enumeration \<open>Ctrl\<close> that the modelled code compares with, each with
  its alias strings as in utils.py. \<open>key == Ctrl.X\<close> is membership of \<open>key\<close> in the
  aliases of \<open>X\<close> (\<open>Ctrl.__eq__\<close>), and \<open>key != Ctrl.X\<close> is its negation.
\<close>

datatype Ctrl = ENTER | TAB | DEL | BACKSPACE | L_ARROW | R_ARROW | U_ARROW | D_ARROW
  | OPT_LARROW | OPT_RARROW | CTRL_LARROW | CTRL_RARROW | HOME | END | PG_UP | PG_DOWN
  | CTRL_C | CTRL_D

definition esc :: char where "esc = CHR 0x1B"
definition xe0 :: char where "xe0 = CHR 0xE0"
definition x00 :: char where "x00 = CHR 0x00"

fun codes :: "Ctrl \<Rightarrow> string list" where
  "codes ENTER = [[CHR 0x0D], [CHR 0x0A], esc # ''OM'']"
| "codes TAB = [[CHR 0x09], esc # ''OI'']"
| "codes DEL = [[CHR 0x2E], esc # ''[3~'', x00 # ''S'', xe0 # ''S'']"
| "codes BACKSPACE = [[CHR 0x7F], [CHR 0x08]]"
| "codes L_ARROW = [esc # ''[D'', xe0 # ''K'', esc # ''OD'', x00 # ''K'']"
| "codes R_ARROW = [esc # ''[C'', xe0 # ''M'', esc # ''OC'', x00 # ''M'']"
| "codes U_ARROW = [esc # ''[A'', xe0 # ''H'', esc # ''OA'', x00 # ''H'']"
| "codes D_ARROW = [esc # ''[B'', xe0 # ''P'', esc # ''OB'', x00 # ''P'']"
| "codes OPT_LARROW = [esc # ''b'']"
| "codes OPT_RARROW = [esc # ''f'']"
| "codes CTRL_LARROW = [xe0 # ''s'', x00 # ''s'']"
| "codes CTRL_RARROW = [xe0 # ''t'', x00 # ''t'']"
| "codes HOME = [esc # ''[H'', xe0 # ''G'', esc # ''OH'', esc # ''[1~'', x00 # ''G'']"
| "codes END = [esc # ''[F'', xe0 # ''O'', esc # ''OF'', esc # ''[4~'', x00 # ''O'']"
| "codes PG_UP = [xe0 # ''I'', esc # ''[5~'', x00 # ''I'']"
| "codes PG_DOWN = [xe0 # ''Q'', esc # ''[6~'', x00 # ''Q'']"
| "codes CTRL_C = [[CHR 0x03]]"
| "codes CTRL_D = [[CHR 0x04]]"

definition is_key :: "string \<Rightarrow> Ctrl \<Rightarrow> bool" where
  "is_key char k = (char \<in> set (codes k))"

text \<open>
  \<open>ord\<close> of a character, and \<open>str.isspace\<close>: the string is not empty and all its
  characters are whitespace. A HOL character is a code point below 256; the whitespace
  code points there are 9 to 13, 28 to 32, 133 and 160.
\<close>

definition ord :: "char \<Rightarrow> nat" where
  "ord c = of_char c"

definition is_space_char :: "char \<Rightarrow> bool" where
  "is_space_char c = (ord c \<in> {9, 10, 11, 12, 13, 28, 29, 30, 31, 32, 133, 160})"

definition isspace :: "string \<Rightarrow> bool" where
  "isspace s = (s \<noteq> [] \<and> list_all is_space_char s)"

section \<open>termutils.py: LineBuffer\<close>

record LineBuffer =
  local_history :: "string list"
  line :: string
  pos :: int
  history_pos :: int
  prompt :: string
  send_with_enter :: bool
  cursor_movement :: bool
  use_history :: bool
  tabsize :: int

text \<open>
  \<^verbatim>\<open>
  def __init__(self, *, send_with_enter=True, cursor_movement=True, use_history=True, tabsize=4):
    self.reset()
    self._local_history = []
    ...
  def reset(self):
    self._line = ''
    self._pos = 0  # absolute position
    self._history_pos = 0
    self._prompt = ''
  \<close>
\<close>

definition lb_init :: "bool \<Rightarrow> bool \<Rightarrow> bool \<Rightarrow> int \<Rightarrow> LineBuffer" where
  "lb_init swe cm uh ts =
     \<lparr>local_history = [], line = [], pos = 0, history_pos = 0, prompt = [],
      send_with_enter = swe, cursor_movement = cm, use_history = uh, tabsize = ts\<rparr>"

definition reset :: "LineBuffer \<Rightarrow> LineBuffer" where
  "reset lb = lb\<lparr>line := [], pos := 0, history_pos := 0, prompt := []\<rparr>"

text \<open>
  \<^verbatim>\<open>
  @prompt.setter
  def prompt(self, _prompt):
    offset = self._pos - len(self._prompt)
    self._pos = len(_prompt) + offset
    self._prompt = _prompt
  def set_placeholder(self, placeholder):
    if not self._line:
      self._line = placeholder
      self._pos = len(self._prompt + placeholder)
  \<close>
\<close>

definition set_prompt :: "LineBuffer \<Rightarrow> string \<Rightarrow> LineBuffer" where
  "set_prompt lb p =
     (let offset = pos lb - int (length (prompt lb))
      in lb\<lparr>pos := int (length p) + offset, prompt := p\<rparr>)"

definition set_placeholder :: "LineBuffer \<Rightarrow> string \<Rightarrow> LineBuffer" where
  "set_placeholder lb placeholder =
     (if line lb = [] then lb\<lparr>line := placeholder, pos := int (length (prompt lb @ placeholder))\<rparr>
      else lb)"

text \<open>
  \<^verbatim>\<open>
  def cursor_left(self, n=1):
    offset = self._pos - len(self._prompt)
    if valid := (offset > 0):
      self._pos -= min(n, offset)
    return valid
  def cursor_right(self, n=1):
    offset = len(self._prompt + self._line) - self._pos
    if valid := (offset > 0):
      self._pos += min(n, offset)
    return valid
  \<close>
  Each returns the flag \<open>valid\<close> and the updated buffer.
\<close>

definition cursor_left :: "LineBuffer \<Rightarrow> int \<Rightarrow> bool \<times> LineBuffer" where
  "cursor_left lb n =
     (let offset = pos lb - int (length (prompt lb))
      in if offset > 0 then (True, lb\<lparr>pos := pos lb - min n offset\<rparr>) else (False, lb))"

definition cursor_right :: "LineBuffer \<Rightarrow> int \<Rightarrow> bool \<times> LineBuffer" where
  "cursor_right lb n =
     (let offset = int (length (prompt lb @ line lb)) - pos lb
      in if offset > 0 then (True, lb\<lparr>pos := pos lb + min n offset\<rparr>) else (False, lb))"

text \<open>
  \<^verbatim>\<open>
  def history_up(self):
    if self._history_pos == 0 or self._history_pos < len(self._local_history) - 1:
      if self._history_pos == 0:
        self._local_history.append(self._line)
      self._history_pos += 1
      self._line = self._local_history[-self._history_pos - 1]
      self._pos = len(self._line) + len(self._prompt)
  def history_down(self):
    if self._history_pos > 0:
      self._history_pos -= 1
      self._line = self._local_history.pop() if self._history_pos == 0 \
                   else self._local_history[-self._history_pos - 1]
      self._pos = len(self._line) + len(self._prompt)
  def enter_send(self):
    if not self._local_history or self._line != self._local_history[-1]:
      if self._history_pos != 0:
        self._local_history.pop()
      self._local_history.append(self._line)
    result = self._line
    self._line = ''
    self._pos = len(self._prompt)
    return result
  \<close>
\<close>

definition history_up :: "LineBuffer \<Rightarrow> exn + LineBuffer" where
  "history_up lb =
     (if history_pos lb = 0 \<or> history_pos lb < int (length (local_history lb)) - 1
      then
        let hist = (if history_pos lb = 0 then local_history lb @ [line lb] else local_history lb);
            hp = history_pos lb + 1
        in (case py_get hist (- hp - 1) of
              Inl e \<Rightarrow> Inl e
            | Inr l \<Rightarrow> Inr (lb\<lparr>local_history := hist, history_pos := hp, line := l,
                               pos := int (length l) + int (length (prompt lb))\<rparr>))
      else Inr lb)"

definition history_down :: "LineBuffer \<Rightarrow> exn + LineBuffer" where
  "history_down lb =
     (if history_pos lb > 0
      then
        let hp = history_pos lb - 1
        in if hp = 0
           then (case py_pop (local_history lb) of
                   Inl e \<Rightarrow> Inl e
                 | Inr (l, hist) \<Rightarrow> Inr (lb\<lparr>local_history := hist, history_pos := hp, line := l,
                                    pos := int (length l) + int (length (prompt lb))\<rparr>))
           else (case py_get (local_history lb) (- hp - 1) of
                   Inl e \<Rightarrow> Inl e
                 | Inr l \<Rightarrow> Inr (lb\<lparr>history_pos := hp, line := l,
                                    pos := int (length l) + int (length (prompt lb))\<rparr>))
      else Inr lb)"

definition enter_send :: "LineBuffer \<Rightarrow> exn + (LineBuffer \<times> string)" where
  "enter_send lb =
     (let commit = (\<lambda>hist. Inr (lb\<lparr>local_history := hist, line := [],
                                     pos := int (length (prompt lb))\<rparr>, line lb))
      in if local_history lb = [] \<or> line lb \<noteq> last (local_history lb)
         then if history_pos lb \<noteq> 0
              then (case py_pop (local_history lb) of
                      Inl e \<Rightarrow> Inl e
                    | Inr (l, hist) \<Rightarrow> commit (hist @ [line lb]))
              else commit (local_history lb @ [line lb])
         else commit (local_history lb))"

text \<open>
  \<^verbatim>\<open>
  def insert(self, char):
    if char != Ctrl.ENTER and char.isspace() or len(char) == 1 and ord(char) not in range(0x00, 0x20):
      self._line = f'{self._line[:self._pos]}{char}{self._line[self._pos:]}'
      self._pos += 1
  \<close>
  The slices are taken at \<open>_pos\<close> itself, the position that counts from the start of
  the prompt.
\<close>

definition insert_lb :: "LineBuffer \<Rightarrow> string \<Rightarrow> LineBuffer" where
  "insert_lb lb char =
     (if (\<not> is_key char ENTER \<and> isspace char) \<or> (length char = 1 \<and> \<not> ord (hd char) < 0x20)
      then lb\<lparr>line := slice_to (line lb) (pos lb) @ char @ slice_from (line lb) (pos lb),
              pos := pos lb + 1\<rparr>
      else lb)"

text \<open>
  \<^verbatim>\<open>
  def key(self, char):
    if char in (Ctrl.DEL, Ctrl.BACKSPACE):
      if char == Ctrl.DEL and self._pos < len(self._prompt + self._line) \
         or char == Ctrl.BACKSPACE and self.cursor_left():
        true_pos = self._pos - len(self._prompt)
        self._line = self._line[:true_pos] + self._line[true_pos + 1:]
    elif char == Ctrl.TAB:
      self.insert('\t'.expandtabs(self.__tabsize))
    else:
      self.insert(char)
      if self.__cursor_movement:
        if char == Ctrl.R_ARROW: self.cursor_right()
        elif char == Ctrl.L_ARROW: self.cursor_left()
        elif char == Ctrl.HOME: self.cursor_left(len(self._line))
        elif char == Ctrl.END: self.cursor_right(len(self._line))
        elif char in (Ctrl.CTRL_LARROW, Ctrl.OPT_LARROW):
          true_pos = self._pos - len(self._prompt)
          substr = self._line[0:true_pos]
          offset = true_pos - m.end() if (m := re.search(r'.*(?<!\s)(?=\s+\S+)', substr)) \
                   else len(self._line)
          self.cursor_left(offset)
        elif char in (Ctrl.CTRL_RARROW, Ctrl.OPT_RARROW):
          true_pos = self._pos - len(self._prompt)
          offset = m.end() + 1 if (m := re.search(r'\s+(?=\S)', self._line[true_pos + 1:])) \
                   else len(self._line)
          self.cursor_right(offset)
      if self.__use_history:
        if char == Ctrl.U_ARROW: self.history_up()
        elif char == Ctrl.D_ARROW: self.history_down()
      if self.__send_with_enter:
        if char == Ctrl.ENTER:
          return self.enter_send()
  \<close>
  The two regular-expression searches belong to the library \<open>re\<close>: they are parameters
  \<open>re_left\<close> and \<open>re_right\<close> that give \<open>m.end()\<close> of the match in the searched string, or
  \<open>None\<close> when there is no match. \<open>'\t'.expandtabs(n)\<close> is a run of \<open>n\<close> spaces (none when
  \<open>n \<le> 0\<close>). \<open>key\<close> returns the updated buffer and the value returned by the method.
\<close>

definition delete_at_cursor :: "LineBuffer \<Rightarrow> LineBuffer" where
  "delete_at_cursor lb =
     (let true_pos = pos lb - int (length (prompt lb))
      in lb\<lparr>line := slice_to (line lb) true_pos @ slice_from (line lb) (true_pos + 1)\<rparr>)"

definition expandtabs_tab :: "int \<Rightarrow> string" where
  "expandtabs_tab n = replicate (nat n) CHR '' ''"

definition move_cursor :: "(string \<Rightarrow> nat option) \<Rightarrow> (string \<Rightarrow> nat option) \<Rightarrow> LineBuffer \<Rightarrow> string \<Rightarrow> LineBuffer" where
  "move_cursor re_left re_right lb char =
     (if is_key char R_ARROW then snd (cursor_right lb 1)
      else if is_key char L_ARROW then snd (cursor_left lb 1)
      else if is_key char HOME then snd (cursor_left lb (int (length (line lb))))
      else if is_key char END then snd (cursor_right lb (int (length (line lb))))
      else if is_key char CTRL_LARROW \<or> is_key char OPT_LARROW then
        (let true_pos = pos lb - int (length (prompt lb));
             substr = slice_to (line lb) true_pos;
             offset = (case re_left substr of
                         Some e \<Rightarrow> true_pos - int e
                       | None \<Rightarrow> int (length (line lb)))
         in snd (cursor_left lb offset))
      else if is_key char CTRL_RARROW \<or> is_key char OPT_RARROW then
        (let true_pos = pos lb - int (length (prompt lb));
             offset = (case re_right (slice_from (line lb) (true_pos + 1)) of
                         Some e \<Rightarrow> int e + 1
                       | None \<Rightarrow> int (length (line lb)))
         in snd (cursor_right lb offset))
      else lb)"

definition walk_history :: "LineBuffer \<Rightarrow> string \<Rightarrow> exn + LineBuffer" where
  "walk_history lb char =
     (if is_key char U_ARROW then history_up lb
      else if is_key char D_ARROW then history_down lb
      else Inr lb)"

definition key :: "(string \<Rightarrow> nat option) \<Rightarrow> (string \<Rightarrow> nat option) \<Rightarrow> LineBuffer \<Rightarrow> string \<Rightarrow> exn + (LineBuffer \<times> string option)" where
  "key re_left re_right lb char =
     (if is_key char DEL \<or> is_key char BACKSPACE then
        if is_key char DEL \<and> pos lb < int (length (prompt lb @ line lb))
        then Inr (delete_at_cursor lb, None)
        else if is_key char BACKSPACE
        then (case cursor_left lb 1 of
                (valid, lb1) \<Rightarrow> Inr (if valid then delete_at_cursor lb1 else lb1, None))
        else Inr (lb, None)
      else if is_key char TAB then Inr (insert_lb lb (expandtabs_tab (tabsize lb)), None)
      else
        let lb1 = insert_lb lb char;
            lb2 = (if cursor_movement lb1 then move_cursor re_left re_right lb1 char else lb1)
        in (case (if use_history lb2 then walk_history lb2 char else Inr lb2) of
              Inl e \<Rightarrow> Inl e
            | Inr lb3 \<Rightarrow>
                if send_with_enter lb3 \<and> is_key char ENTER
                then (case enter_send lb3 of
                        Inl e \<Rightarrow> Inl e
                      | Inr (lb4, result) \<Rightarrow> Inr (lb4, Some result))
                else Inr (lb3, None)))"

text \<open>A search that finds no match, for bursts that never reach the word jumps.\<close>

definition re_none :: "string \<Rightarrow> nat option" where
  "re_none s = None"

section \<open>Properties of LineBuffer\<close>

lemma printable_not_key:
  assumes "32 \<le> ord c"
  shows "\<not> is_key [c] ENTER" "\<not> is_key [c] TAB" "\<not> is_key [c] L_ARROW" "\<not> is_key [c] R_ARROW"
    "\<not> is_key [c] U_ARROW" "\<not> is_key [c] D_ARROW" "\<not> is_key [c] OPT_LARROW"
    "\<not> is_key [c] OPT_RARROW" "\<not> is_key [c] CTRL_LARROW" "\<not> is_key [c] CTRL_RARROW"
    "\<not> is_key [c] HOME" "\<not> is_key [c] END"
  using assms by (auto simp: is_key_def ord_def)

lemma printable_del_backspace:
  "is_key [c] DEL \<longleftrightarrow> c = CHR ''.''" "is_key [c] BACKSPACE \<longleftrightarrow> c = CHR 0x7F \<or> c = CHR 0x08"
  by (auto simp: is_key_def)

lemma insert_lb_accepted:
  assumes "(\<not> is_key char ENTER \<and> isspace char) \<or> (length char = 1 \<and> 32 \<le> ord (hd char))"
  shows "insert_lb lb char =
         lb\<lparr>line := slice_to (line lb) (pos lb) @ char @ slice_from (line lb) (pos lb),
            pos := pos lb + 1\<rparr>"
  using assms by (auto simp: insert_lb_def not_less)

lemma key_plain_char:
  assumes "32 \<le> ord c" "c \<noteq> CHR ''.''" "c \<noteq> CHR 0x7F"
  shows "key re_left re_right lb [c] = Inr (insert_lb lb [c], None)"
proof -
  have nb: "\<not> is_key [c] BACKSPACE"
    using assms by (auto simp: printable_del_backspace ord_def)
  have nd: "\<not> is_key [c] DEL"
    using assms by (simp add: printable_del_backspace)
  have mv: "move_cursor re_left re_right l [c] = l" for l
    using printable_not_key [OF assms(1)] by (simp add: move_cursor_def)
  have wh: "walk_history l [c] = Inr l" for l
    using printable_not_key [OF assms(1)] by (simp add: walk_history_def)
  show ?thesis
    using nb nd mv wh printable_not_key [OF assms(1)] by (simp add: key_def Let_def)
qed

lemma key_tab:
  "key re_left re_right lb [CHR 0x09] = Inr (insert_lb lb (expandtabs_tab (tabsize lb)), None)"
  by (simp add: key_def is_key_def esc_def x00_def xe0_def)

lemma expandtabs_isspace:
  "0 < n \<Longrightarrow> isspace (expandtabs_tab n) \<and> \<not> is_key (expandtabs_tab n) ENTER"
proof -
  assume n: "0 < n"
  then obtain m where m: "nat n = Suc m" by (cases "nat n") auto
  have "is_space_char CHR '' ''" by (simp add: is_space_char_def ord_def)
  then have "list_all is_space_char (replicate (nat n) CHR '' '')"
    by (simp add: list_all_iff)
  then show ?thesis
    by (simp add: isspace_def expandtabs_tab_def is_key_def m esc_def)
qed

lemma key_tab_run:
  assumes "0 < tabsize lb"
  shows "key re_left re_right lb [CHR 0x09] =
         Inr (lb\<lparr>line := slice_to (line lb) (pos lb) @ replicate (nat (tabsize lb)) CHR '' ''
                        @ slice_from (line lb) (pos lb),
                 pos := pos lb + 1\<rparr>, None)"
  using expandtabs_isspace [OF assms]
  by (simp add: key_tab insert_lb_accepted) (simp add: expandtabs_tab_def)

text \<open>
  Claim C6 (amended). For a LineBuffer with an empty prompt and the cursor inside the
  text: \<open>insert\<close> accepts a burst if and only if the burst is not empty, consists of
  whitespace only and is not an alias of ENTER, or it is a single character with code
  \<open>\<ge> 0x20\<close>; an accepted burst is inserted at the cursor and the cursor advances by 1;
  and for every single character \<open>c\<close> with \<open>ord(c) \<ge> 0x20\<close> other than the full stop and
  \<open>0x7f\<close>, \<open>key(c)\<close> inserts \<open>c\<close> at the cursor.
\<close>

theorem insert_amended:
  assumes "prompt lb = []" "0 \<le> pos lb" "pos lb \<le> int (length (line lb))"
  shows "insert_lb lb char =
           (if (char \<noteq> [] \<and> (\<forall>c \<in> set char. is_space_char c) \<and> char \<notin> set (codes ENTER))
               \<or> (\<exists>c. char = [c] \<and> 32 \<le> ord c)
            then lb\<lparr>line := take (nat (pos lb)) (line lb) @ char @ drop (nat (pos lb)) (line lb),
                    pos := pos lb + 1\<rparr>
            else lb)
     \<and> (32 \<le> ord c \<and> c \<noteq> CHR ''.'' \<and> c \<noteq> CHR 0x7F \<longrightarrow>
          key re_left re_right lb [c] =
            Inr (lb\<lparr>line := take (nat (pos lb)) (line lb) @ [c] @ drop (nat (pos lb)) (line lb),
                    pos := pos lb + 1\<rparr>, None))"
proof -
  have sl: "slice_to (line lb) (pos lb) = take (nat (pos lb)) (line lb)"
           "slice_from (line lb) (pos lb) = drop (nat (pos lb)) (line lb)"
    using assms by (simp_all add: slice_to_def slice_from_def py_index_def)
  have single: "(length char = 1 \<and> \<not> ord (hd char) < 32) = (\<exists>c. char = [c] \<and> 32 \<le> ord c)"
    by (cases char) (auto simp: not_less)
  have first: "insert_lb lb char =
           (if (char \<noteq> [] \<and> (\<forall>c \<in> set char. is_space_char c) \<and> char \<notin> set (codes ENTER))
               \<or> (\<exists>c. char = [c] \<and> 32 \<le> ord c)
            then lb\<lparr>line := take (nat (pos lb)) (line lb) @ char @ drop (nat (pos lb)) (line lb),
                    pos := pos lb + 1\<rparr>
            else lb)"
    unfolding insert_lb_def sl single isspace_def is_key_def list_all_iff by auto
  have second: "key re_left re_right lb [c] =
            Inr (lb\<lparr>line := take (nat (pos lb)) (line lb) @ [c] @ drop (nat (pos lb)) (line lb),
                    pos := pos lb + 1\<rparr>, None)"
    if "32 \<le> ord c" "c \<noteq> CHR ''.''" "c \<noteq> CHR 0x7F"
    using that by (simp add: key_plain_char insert_lb_accepted sl)
  from first second show ?thesis by blast
qed

theorem insert_amended_witness:
  "insert_lb ((lb_init True True True 4)\<lparr>line := ''ac'', pos := 1\<rparr>) ''b''
     = (lb_init True True True 4)\<lparr>line := ''abc'', pos := 2\<rparr>
   \<and> key re_none re_none ((lb_init True True True 4)\<lparr>line := ''ac'', pos := 1\<rparr>) ''b''
     = Inr ((lb_init True True True 4)\<lparr>line := ''abc'', pos := 2\<rparr>, None)"
  using insert_amended [of "(lb_init True True True 4)\<lparr>line := ''ac'', pos := 1\<rparr>" "''b''" "CHR ''b''" re_none re_none]
  by (simp add: lb_init_def ord_def is_space_char_def)

text \<open>
  The claim as stated fails: the burst \<open>a b\<close> contains whitespace other than ENTER and is
  not inserted, and the single character \<open>0x7f\<close> has a code \<open>\<ge> 0x20\<close> and \<open>key\<close> treats it
  as BACKSPACE.
\<close>

theorem insert_not_as_claimed:
  "CHR '' '' \<in> set ''a b'' \<and> \<not> is_key '' '' ENTER
   \<and> insert_lb ((lb_init True True True 4)\<lparr>line := ''ab'', pos := 2\<rparr>) ''a b''
       = (lb_init True True True 4)\<lparr>line := ''ab'', pos := 2\<rparr>
   \<and> 32 \<le> ord (CHR 0x7F)
   \<and> key re_none re_none ((lb_init True True True 4)\<lparr>line := ''ab'', pos := 2\<rparr>) [CHR 0x7F]
       = Inr ((lb_init True True True 4)\<lparr>line := ''a'', pos := 1\<rparr>, None)"
  by (simp add: insert_lb_def isspace_def is_space_char_def ord_def is_key_def esc_def x00_def xe0_def
      key_def cursor_left_def delete_at_cursor_def lb_init_def slice_to_def slice_from_def py_index_def)

text \<open>The full stop is an alias of DEL, so \<open>key\<close> deletes instead of inserting it.\<close>

lemma key_full_stop_deletes:
  "key re_none re_none ((lb_init True True True 4)\<lparr>line := ''ab'', pos := 0\<rparr>) ''.''
     = Inr ((lb_init True True True 4)\<lparr>line := ''b'', pos := 0\<rparr>, None)"
  by (simp add: is_key_def key_def delete_at_cursor_def lb_init_def slice_to_def slice_from_def py_index_def)

text \<open>
  Claim C10. With tab size \<open>t > 1\<close>, \<open>key(TAB)\<close> should insert the run of \<open>t\<close> spaces at the
  cursor and leave the cursor right after the first of them. With the prompt \<open>> \<close>, the
  text \<open>abcdef\<close> and the cursor after \<open>a\<close> (position 3 from the start of the prompt), the
  run goes in after \<open>abc\<close>, and the cursor ends after \<open>ab\<close>: \<open>insert\<close> slices the text at
  the position that counts the prompt, where the deletion in \<open>key\<close> subtracts the length
  of the prompt first.
\<close>

theorem key_tab_with_prompt:
  "key re_none re_none ((lb_init True True True 4)\<lparr>line := ''abcdef'', pos := 3, prompt := ''> ''\<rparr>) [CHR 0x09]
     = Inr ((lb_init True True True 4)\<lparr>line := ''abc    def'', pos := 4, prompt := ''> ''\<rparr>, None)
   \<and> 3 - int (length ''> '') = 1
   \<and> ''abc    def'' \<noteq> take 1 ''abcdef'' @ replicate 4 CHR '' '' @ drop 1 ''abcdef''"
  by (simp add: key_tab_run lb_init_def slice_to_def slice_from_def py_index_def eval_nat_numeral)

section \<open>apps.py: the fuzzy matcher\<close>

text \<open>
  \<open>str.casefold\<close> folds a string character by character. On the code points below 256
  it lowers A to Z and the capital letters 0xC0 to 0xDE (0xD7, the multiplication sign,
  is no letter), turns the sharp s 0xDF into the two characters \<open>ss\<close>, and keeps every
  other character, with one exception: the micro sign 0xB5 folds to the code point 0x3BC.
  No other code point below 256 folds to 0x3BC and it is no 8-bit character; folded
  characters are only ever compared with folded characters, so the model keeps 0xB5 in
  its place, which leaves every such comparison as it is.
  \<open>s.find(sub, start)\<close> is the first index \<open>\<ge> start\<close> at which \<open>sub\<close> occurs in \<open>s\<close>;
  Python's \<open>-1\<close> is \<open>None\<close>.
\<close>

definition casefold_char :: "char \<Rightarrow> string" where
  "casefold_char c =
     (if (65 \<le> ord c \<and> ord c \<le> 90) \<or> (192 \<le> ord c \<and> ord c \<le> 214) \<or> (216 \<le> ord c \<and> ord c \<le> 222)
      then [char_of (ord c + 32)]
      else if ord c = 223 then ''ss''
      else [c])"

definition casefold :: "string \<Rightarrow> string" where
  "casefold s = concat (map casefold_char s)"

fun find_prefix :: "string \<Rightarrow> string \<Rightarrow> nat option" where
  "find_prefix sub [] = (if sub = [] then Some 0 else None)"
| "find_prefix sub (x # xs) =
     (if take (length sub) (x # xs) = sub then Some 0 else map_option Suc (find_prefix sub xs))"

definition str_find :: "string \<Rightarrow> string \<Rightarrow> nat \<Rightarrow> nat option" where
  "str_find s sub start =
     (if start \<le> length s then map_option (\<lambda>i. start + i) (find_prefix sub (drop start s))
      else None)"

text \<open>
  \<^verbatim>\<open>
  def _matches_query(self, query, item):
    i_item = item.casefold()
    score = 0
    indices = []
    last_index = -1
    for char in query:
      if (i := i_item.find(char.casefold(), last_index + 1)) == -1:
        return
      indices.append(i)
      _score = (i - last_index - 1) * 0.05
      score += 0.5 + _score if item[i] != char else 1 + _score
      last_index = i
    if indices:
      return indices, score / (last_index + 1)
  \<close>
  The loop is a recursion over the query that carries \<open>score\<close>, \<open>indices\<close> and
  \<open>last_index\<close>. The index \<open>i\<close> is a position of the folded item and \<open>item[i]\<close> reads the
  item itself, which raises \<open>IndexError\<close> when \<open>i\<close> is beyond its end. Python's floats are
  idealised as exact rationals (\<open>0.05 = 1/20\<close>). Returning nothing is \<open>None\<close>.
\<close>

fun matches_loop :: "string \<Rightarrow> string \<Rightarrow> string \<Rightarrow> rat \<Rightarrow> nat list \<Rightarrow> int \<Rightarrow> exn + (rat \<times> nat list \<times> int) option" where
  "matches_loop item i_item [] score indices last_index = Inr (Some (score, indices, last_index))"
| "matches_loop item i_item (char # query) score indices last_index =
     (case str_find i_item (casefold_char char) (nat (last_index + 1)) of
        None \<Rightarrow> Inr None
      | Some i \<Rightarrow>
          (case py_get item (int i) of
             Inl e \<Rightarrow> Inl e
           | Inr x \<Rightarrow>
               let sc = of_int (int i - last_index - 1) * (1 / 20)
               in matches_loop item i_item query
                    (score + (if x \<noteq> char then 1 / 2 + sc else 1 + sc))
                    (indices @ [i]) (int i)))"

definition matches_query :: "string \<Rightarrow> string \<Rightarrow> exn + (nat list \<times> rat) option" where
  "matches_query query item =
     (case matches_loop item (casefold item) query 0 [] (- 1) of
        Inl e \<Rightarrow> Inl e
      | Inr None \<Rightarrow> Inr None
      | Inr (Some (score, indices, last_index)) \<Rightarrow>
          if indices \<noteq> [] then Inr (Some (indices, score / of_int (last_index + 1)))
          else Inr None)"

text \<open>
  The matcher as the specification words it, for strings whose characters each fold to
  one character (\<open>single_fold\<close>; every ASCII string is one). \<open>next_occurrences it q lo is\<close>:
  walking the folded query \<open>q\<close> from left to right, \<open>is\<close> lists for each character its
  next occurrence in the folded item \<open>it\<close>, at an index not below \<open>lo\<close> and, from the
  second character on, above the index matched last. \<open>raw_score\<close> adds for each matched
  position \<open>i\<close> with gap \<open>g = i - last - 1\<close> the amount \<open>0.5 + 0.05 g\<close> when the original
  character of the item differs from the character of the query, and \<open>1 + 0.05 g\<close>
  otherwise.
\<close>

definition single_fold :: "string \<Rightarrow> bool" where
  "single_fold s = list_all (\<lambda>c. length (casefold_char c) = 1) s"

fun next_occurrences :: "string \<Rightarrow> string \<Rightarrow> nat \<Rightarrow> nat list \<Rightarrow> bool" where
  "next_occurrences it [] lo is = (is = [])"
| "next_occurrences it (c # cs) lo [] = False"
| "next_occurrences it (c # cs) lo (i # is) =
     (lo \<le> i \<and> i < length it \<and> it ! i = c \<and> (\<forall>k \<in> {lo..<i}. it ! k \<noteq> c)
      \<and> next_occurrences it cs (Suc i) is)"

fun raw_score :: "string \<Rightarrow> string \<Rightarrow> int \<Rightarrow> nat list \<Rightarrow> rat" where
  "raw_score item (c # cs) last_index (i # is) =
     (if item ! i \<noteq> c then 1 / 2 + (1 / 20) * of_int (int i - last_index - 1)
      else 1 + (1 / 20) * of_int (int i - last_index - 1))
     + raw_score item cs (int i) is"
| "raw_score item [] last_index is = 0"
| "raw_score item (c # cs) last_index [] = 0"

section \<open>Properties of the fuzzy matcher\<close>

lemma find_prefix_single_iff:
  "find_prefix [c] xs = Some j \<longleftrightarrow> j < length xs \<and> xs ! j = c \<and> (\<forall>k<j. xs ! k \<noteq> c)"
proof (induction xs arbitrary: j)
  case Nil
  then show ?case by simp
next
  case (Cons x xs)
  show ?case
  proof (cases "x = c")
    case True
    then show ?thesis by (cases j) auto
  next
    case False
    show ?thesis
    proof (cases j)
      case 0
      with False show ?thesis by auto
    next
      case (Suc m)
      have "(\<forall>k<Suc m. (x # xs) ! k \<noteq> c) \<longleftrightarrow> (\<forall>k<m. xs ! k \<noteq> c)"
        using False by (auto simp: less_Suc_eq_0_disj)
      with False Suc Cons.IH [of m] show ?thesis by auto
    qed
  qed
qed

lemma str_find_single_iff:
  "str_find s [c] lo = Some i \<longleftrightarrow>
     lo \<le> i \<and> i < length s \<and> s ! i = c \<and> (\<forall>k \<in> {lo..<i}. s ! k \<noteq> c)"
proof
  assume "str_find s [c] lo = Some i"
  then obtain j where le: "lo \<le> length s" and j: "find_prefix [c] (drop lo s) = Some j"
    and i: "i = lo + j"
    by (auto simp: str_find_def split: if_splits)
  from j have *: "j < length (drop lo s)" "drop lo s ! j = c" "\<forall>k<j. drop lo s ! k \<noteq> c"
    by (simp_all add: find_prefix_single_iff)
  from *(1) have lt: "lo + j < length s" by simp
  have "s ! k \<noteq> c" if "k \<in> {lo..<i}" for k
  proof -
    from that i have "k - lo < j" "lo + (k - lo) = k" by auto
    with *(3) le show ?thesis by (metis nth_drop)
  qed
  with * lt i le show "lo \<le> i \<and> i < length s \<and> s ! i = c \<and> (\<forall>k \<in> {lo..<i}. s ! k \<noteq> c)"
    by simp
next
  assume a: "lo \<le> i \<and> i < length s \<and> s ! i = c \<and> (\<forall>k \<in> {lo..<i}. s ! k \<noteq> c)"
  then have "i - lo < length s - lo" by linarith
  with a have "i - lo < length (drop lo s)" "drop lo s ! (i - lo) = c" by simp_all
  moreover have "\<forall>k<i - lo. drop lo s ! k \<noteq> c"
  proof (intro allI impI)
    fix k assume "k < i - lo"
    with a have "lo + k \<in> {lo..<i}" "lo + k \<le> length s" by auto
    with a show "drop lo s ! k \<noteq> c" by simp
  qed
  ultimately have "find_prefix [c] (drop lo s) = Some (i - lo)"
    by (simp add: find_prefix_single_iff)
  with a show "str_find s [c] lo = Some i" by (simp add: str_find_def)
qed

lemma next_occurrences_length:
  "next_occurrences it q lo is \<Longrightarrow> length is = length q"
  by (induction it q lo "is" rule: next_occurrences.induct) auto

lemma single_fold_casefold:
  "single_fold s \<Longrightarrow> casefold s = map (\<lambda>c. hd (casefold_char c)) s \<and> length (casefold s) = length s"
proof (induction s)
  case Nil
  then show ?case by (simp add: casefold_def)
next
  case (Cons c s)
  then have "length (casefold_char c) = 1" "single_fold s" by (simp_all add: single_fold_def)
  then obtain x where "casefold_char c = [x]" by (cases "casefold_char c") auto
  with Cons \<open>single_fold s\<close> show ?case by (simp add: casefold_def)
qed

lemma matches_loop_spec:
  assumes "length it = length item" "single_fold q"
  shows "(\<forall>e. matches_loop item it q sc inds (int lo - 1) \<noteq> Inl e)
     \<and> (matches_loop item it q sc inds (int lo - 1) = Inr (Some (sc', inds', last')) \<longleftrightarrow>
         (\<exists>is. next_occurrences it (casefold q) lo is \<and> inds' = inds @ is
            \<and> sc' = sc + raw_score item q (int lo - 1) is
            \<and> last' = (if is = [] then int lo - 1 else int (last is))))"
  using assms(2)
proof (induction q arbitrary: sc inds lo)
  case Nil
  then show ?case by (auto simp: casefold_def)
next
  case (Cons c q)
  from Cons.prems have sq: "single_fold q" and "length (casefold_char c) = 1"
    by (simp_all add: single_fold_def)
  then obtain x where x: "casefold_char c = [x]" by (cases "casefold_char c") auto
  have cf: "casefold (c # q) = x # casefold q" by (simp add: casefold_def x)
  let ?step = "\<lambda>i. (if item ! i \<noteq> c then 1 / 2 + of_int (int i - (int lo - 1) - 1) * (1 / 20)
                    else 1 + of_int (int i - (int lo - 1) - 1) * (1 / 20))"
  have lo: "nat (int lo - 1 + 1) = lo" by simp
  have unfold: "matches_loop item it (c # q) sc inds (int lo - 1) =
      (case str_find it [x] lo of
         None \<Rightarrow> Inr None
       | Some i \<Rightarrow> matches_loop item it q (sc + ?step i) (inds @ [i]) (int (Suc i) - 1))"
  proof (cases "str_find it [x] lo")
    case None
    then show ?thesis by (simp add: x lo)
  next
    case (Some i)
    then have "i < length item" using assms(1) by (simp add: str_find_single_iff)
    then have "py_get item (int i) = Inr (item ! i)" by (simp add: py_get_def py_index_def)
    with Some show ?thesis by (simp add: x lo Let_def)
  qed
  have no_raise: "matches_loop item it (c # q) sc inds (int lo - 1) \<noteq> Inl e" for e
  proof (cases "str_find it [x] lo")
    case None
    then show ?thesis unfolding unfold by simp
  next
    case (Some i)
    have "matches_loop item it q (sc + ?step i) (inds @ [i]) (int (Suc i) - 1) \<noteq> Inl e"
      using Cons.IH [OF sq, of "sc + ?step i" "inds @ [i]" "Suc i"] by blast
    then show ?thesis unfolding unfold Some by simp
  qed
  have iff: "matches_loop item it (c # q) sc inds (int lo - 1) = Inr (Some (sc', inds', last')) \<longleftrightarrow>
         (\<exists>is. next_occurrences it (casefold (c # q)) lo is \<and> inds' = inds @ is
            \<and> sc' = sc + raw_score item (c # q) (int lo - 1) is
            \<and> last' = (if is = [] then int lo - 1 else int (last is)))"
  proof
    assume L: "matches_loop item it (c # q) sc inds (int lo - 1) = Inr (Some (sc', inds', last'))"
    then obtain i where i: "str_find it [x] lo = Some i"
      unfolding unfold by (auto split: option.splits)
    with L have "matches_loop item it q (sc + ?step i) (inds @ [i]) (int (Suc i) - 1)
                  = Inr (Some (sc', inds', last'))"
      unfolding unfold by simp
    then obtain is' where is': "next_occurrences it (casefold q) (Suc i) is'"
        "inds' = (inds @ [i]) @ is'"
        "sc' = sc + ?step i + raw_score item q (int (Suc i) - 1) is'"
        "last' = (if is' = [] then int (Suc i) - 1 else int (last is'))"
      using Cons.IH [OF sq, of "sc + ?step i" "inds @ [i]" "Suc i"] by blast
    from i have "next_occurrences it (casefold (c # q)) lo (i # is')"
      using is'(1) by (simp add: str_find_single_iff cf)
    moreover have "inds' = inds @ (i # is')" using is'(2) by simp
    moreover have "sc' = sc + raw_score item (c # q) (int lo - 1) (i # is')"
      using is'(3) by (simp add: algebra_simps)
    moreover have "last' = (if i # is' = [] then int lo - 1 else int (last (i # is')))"
      using is'(4) by simp
    ultimately show "\<exists>is. next_occurrences it (casefold (c # q)) lo is \<and> inds' = inds @ is
        \<and> sc' = sc + raw_score item (c # q) (int lo - 1) is
        \<and> last' = (if is = [] then int lo - 1 else int (last is))"
      by blast
  next
    assume "\<exists>is. next_occurrences it (casefold (c # q)) lo is \<and> inds' = inds @ is
        \<and> sc' = sc + raw_score item (c # q) (int lo - 1) is
        \<and> last' = (if is = [] then int lo - 1 else int (last is))"
    then obtain js where js: "next_occurrences it (x # casefold q) lo js"
        "inds' = inds @ js" "sc' = sc + raw_score item (c # q) (int lo - 1) js"
        "last' = (if js = [] then int lo - 1 else int (last js))"
      by (auto simp: cf)
    from js(1) obtain i is' where eq: "js = i # is'" by (cases js) auto
    from js(1) eq have i: "str_find it [x] lo = Some i"
      and rest: "next_occurrences it (casefold q) (Suc i) is'"
      by (simp_all add: str_find_single_iff)
    have "\<exists>is. next_occurrences it (casefold q) (Suc i) is \<and> inds' = (inds @ [i]) @ is
        \<and> sc' = sc + ?step i + raw_score item q (int (Suc i) - 1) is
        \<and> last' = (if is = [] then int (Suc i) - 1 else int (last is))"
      using rest js(2,3,4) eq by (intro exI [of _ is']) (simp add: algebra_simps)
    then have "matches_loop item it q (sc + ?step i) (inds @ [i]) (int (Suc i) - 1)
            = Inr (Some (sc', inds', last'))"
      using Cons.IH [OF sq, of "sc + ?step i" "inds @ [i]" "Suc i"] by blast
    with i show "matches_loop item it (c # q) sc inds (int lo - 1) = Inr (Some (sc', inds', last'))"
      unfolding unfold by simp
  qed
  from no_raise iff show ?case by blast
qed

lemma matches_query_iff:
  assumes "single_fold item" "single_fold q"
  shows "(\<forall>e. matches_query q item \<noteq> Inl e)
     \<and> (matches_query q item = Inr (Some (is, s)) \<longleftrightarrow>
          q \<noteq> [] \<and> next_occurrences (casefold item) (casefold q) 0 is
          \<and> s = raw_score item q (- 1) is / of_int (int (last is) + 1))"
proof -
  have len: "length (casefold item) = length item"
    using single_fold_casefold [OF assms(1)] by simp
  have nr: "matches_loop item (casefold item) q 0 [] (- 1) \<noteq> Inl e" for e
    using matches_loop_spec [OF len assms(2), of 0 "[]" 0] by simp
  have spec: "matches_loop item (casefold item) q 0 [] (- 1) = Inr (Some (sc', inds', last')) \<longleftrightarrow>
     (next_occurrences (casefold item) (casefold q) 0 inds'
        \<and> sc' = raw_score item q (- 1) inds'
        \<and> last' = (if inds' = [] then - 1 else int (last inds')))" for sc' inds' last'
    using matches_loop_spec [OF len assms(2), of 0 "[]" 0 sc' inds' last'] by auto
  have lq: "length (casefold q) = length q"
    using single_fold_casefold [OF assms(2)] by simp
  have emp: "next_occurrences (casefold item) (casefold q) 0 js \<Longrightarrow> (js = [] \<longleftrightarrow> q = [])" for js
    using next_occurrences_length [of "casefold item" "casefold q" 0 js] lq by auto
  have a: "matches_query q item \<noteq> Inl e" for e
    using nr by (auto simp: matches_query_def split: sum.splits option.splits)
  have b: "matches_query q item = Inr (Some (is, s)) \<longleftrightarrow>
          q \<noteq> [] \<and> next_occurrences (casefold item) (casefold q) 0 is
          \<and> s = raw_score item q (- 1) is / of_int (int (last is) + 1)"
  proof
    assume "matches_query q item = Inr (Some (is, s))"
    then obtain sc' last' where
      L: "matches_loop item (casefold item) q 0 [] (- 1) = Inr (Some (sc', is, last'))"
      and ne: "is \<noteq> []" and s: "s = sc' / of_int (last' + 1)"
      by (auto simp: matches_query_def split: sum.splits option.splits if_splits)
    from L [unfolded spec] ne s emp [of "is"]
    show "q \<noteq> [] \<and> next_occurrences (casefold item) (casefold q) 0 is
       \<and> s = raw_score item q (- 1) is / of_int (int (last is) + 1)"
      by auto
  next
    assume h: "q \<noteq> [] \<and> next_occurrences (casefold item) (casefold q) 0 is
       \<and> s = raw_score item q (- 1) is / of_int (int (last is) + 1)"
    with emp [of "is"] have ne: "is \<noteq> []" by simp
    with h have "matches_loop item (casefold item) q 0 [] (- 1)
       = Inr (Some (raw_score item q (- 1) is, is, int (last is)))"
      unfolding spec by simp
    with ne h show "matches_query q item = Inr (Some (is, s))"
      by (simp add: matches_query_def)
  qed
  from a b show ?thesis by blast
qed

lemma matches_loop_append:
  "matches_loop item it (q @ [c]) sc inds l =
     (case matches_loop item it q sc inds l of
        Inl e \<Rightarrow> Inl e
      | Inr None \<Rightarrow> Inr None
      | Inr (Some (sc', inds', l')) \<Rightarrow> matches_loop item it [c] sc' inds' l')"
  by (induction q arbitrary: sc inds l) (auto simp: Let_def split: option.splits sum.splits)

lemma matches_loop_indices:
  "matches_loop item it q sc inds l = Inr (Some (sc', inds', l')) \<Longrightarrow> length inds' = length inds + length q"
  by (induction q arbitrary: sc inds l) (auto simp: Let_def split: option.splits sum.splits)

lemma matches_query_prefix:
  assumes "q \<noteq> []" "matches_query (q @ [c]) item = Inr (Some r)"
  shows "\<exists>r'. matches_query q item = Inr (Some r')"
proof -
  from assms(2) obtain t where "matches_loop item (casefold item) (q @ [c]) 0 [] (- 1) = Inr (Some t)"
    by (auto simp: matches_query_def split: sum.splits option.splits if_splits)
  then obtain sc' inds' l' where
    L: "matches_loop item (casefold item) q 0 [] (- 1) = Inr (Some (sc', inds', l'))"
    by (auto simp: matches_loop_append split: sum.splits option.splits)
  from matches_loop_indices [OF L] assms(1) have "inds' \<noteq> []" by auto
  with L show ?thesis by (simp add: matches_query_def)
qed

lemma matches_query_prefix_returns:
  assumes "matches_query (q @ [c]) item = Inr x"
  shows "\<exists>y. matches_query q item = Inr y"
proof (cases "matches_loop item (casefold item) q 0 [] (- 1)")
  case (Inl e)
  then have "matches_loop item (casefold item) (q @ [c]) 0 [] (- 1) = Inl e"
    by (simp add: matches_loop_append)
  with assms show ?thesis by (simp add: matches_query_def)
next
  case (Inr t)
  then show ?thesis by (auto simp: matches_query_def split: option.splits)
qed

text \<open>
  On items whose characters each fold to one character the matcher does what the
  specification says; the two candidates of its example evaluate as it expects.
\<close>

lemma matches_query_apple:
  "matches_query ''Ap'' ''apple'' = Inr (Some ([0, 1], 3 / 4))
   \<and> matches_query ''Ap'' ''Apple'' = Inr (Some ([0, 1], 1))"
  by code_simp

text \<open>
  Claim C3. \<open>_matches_query(query, item)\<close> should take for each character of the folded
  query its next occurrence and return the indices with the score. The indices it finds
  are positions of the folded item, and it reads the original item at them: the item
  \<open>Stra\<close>, sharp s, \<open>e\<close> has six characters and folds to \<open>strasse\<close>, the query \<open>e\<close> occurs
  there at index 6, and the code raises \<open>IndexError\<close> at \<open>item[6]\<close>.
\<close>

theorem matches_query_index_error:
  "length (''Stra'' @ [CHR 0xDF] @ ''e'') = 6
   \<and> casefold (''Stra'' @ [CHR 0xDF] @ ''e'') = ''strasse''
   \<and> str_find ''strasse'' (casefold_char CHR ''e'') 0 = Some 6
   \<and> matches_query ''e'' (''Stra'' @ [CHR 0xDF] @ ''e'') = Inl IndexError"
  by code_simp

section \<open>apps.py: FuzzyFinder\<close>

text \<open>
  The fields of the finder that its navigation and search read and write. \<open>in_app\<close> is
  the flag \<open>_in_app\<close> of XTermApplication that \<open>contextprotected\<close> methods test, and
  \<open>columns\<close> is \<open>termsize.columns\<close>. The escape sequences written to the terminal are
  not modelled; what is modelled of the methods that write is whether they raise.
  \<^verbatim>\<open>
  def __init__(self, objects, receiver=None):
    ...
    self.objects = list(objects)
    self._sublist = SequencePointer(self.objects, False)
    self._value = None
    self._start_index = 0
    self._maxlines = self.termsize.lines - 2
    self._line_buffer = LineBuffer(send_with_enter=False, use_history=False)
    self._current_query = ''
  \<close>
\<close>

record FuzzyFinder =
  in_app :: bool
  objects :: "string list"
  sublist :: "string SequencePointer"
  start_index :: int
  maxlines :: int
  columns :: int
  line_buffer :: LineBuffer
  current_query :: string
  selected :: "string option"

definition ff_init :: "string list \<Rightarrow> int \<Rightarrow> int \<Rightarrow> FuzzyFinder" where
  "ff_init objs term_lines term_columns =
     \<lparr>in_app = False, objects = objs, sublist = sp_init objs False, start_index = 0,
      maxlines = term_lines - 2, columns = term_columns, line_buffer = lb_init False True False 4,
      current_query = [], selected = None\<rparr>"

text \<open>
  \<^verbatim>\<open>
  def _format_normal_line(self, item, length):
    return f' ...   {self._format_item(trim(item, length - 5))}'
  def _format_item(self, item):
    if (query := self._current_query) and (match := self._matches_query(query, item)):
      for i in reversed(match[0]):
        item = f'{item[:i]}\x1b[1;36m{item[i]}\x1b[22;39m{item[i + 1:]}'
    return item
  \<close>
  Formatting raises what the matcher raises and nothing else: the indices of a match are
  positions that the matcher has read in the item.
\<close>

definition format_item :: "FuzzyFinder \<Rightarrow> string \<Rightarrow> exn + unit" where
  "format_item ff item =
     (if current_query ff \<noteq> []
      then (case matches_query (current_query ff) item of Inl e \<Rightarrow> Inl e | Inr m \<Rightarrow> Inr ())
      else Inr ())"

definition format_normal_line :: "FuzzyFinder \<Rightarrow> string \<Rightarrow> int \<Rightarrow> exn + unit" where
  "format_normal_line ff item len = format_item ff (trim item (len - 5))"

text \<open>
  \<^verbatim>\<open>
  @contextprotected
  def writelines(self):
    self.footer()
    if not len(self._sublist):
      self.clear()
      self.write('\x1b[0;0H\x1b[7m(EMPTY)\x1b[0m')
    else:
      self.write('\x1b[0;0H\x1b[2K')
      self.write(
        '\x1b[E\x1b[2K'.join(
          self._format_normal_line(line, self.termsize.columns)
          for line in self._sublist[self._start_index:self._start_index + self._maxlines]
        )
      )
      self.flush()
  @contextprotected
  def highlight(self, index, unhighlight=False):
    if index < len(self._sublist):
      row = 1 + index - self._start_index
      self.write(f'\x1b7\x1b[{row};0H')
      if unhighlight:
        self.write(f'\x1b[0K{self._format_normal_line(self._sublist[index], self.termsize.columns)}')
      else:
        self.write(self.rjust_line(f'... {self._format_item(self._sublist[index])}'))
        self.write('\x1b[0m')
      self.write('\x1b8')
  \<close>
\<close>

definition slice_between :: "'a list \<Rightarrow> int \<Rightarrow> int \<Rightarrow> 'a list" where
  "slice_between xs a b = take (py_index xs b - py_index xs a) (drop (py_index xs a) xs)"

fun first_error :: "(exn + unit) list \<Rightarrow> exn + unit" where
  "first_error [] = Inr ()"
| "first_error (x # xs) = (case x of Inl e \<Rightarrow> Inl e | Inr u \<Rightarrow> first_error xs)"

definition writelines :: "FuzzyFinder \<Rightarrow> exn + unit" where
  "writelines ff =
     (if in_app ff \<and> sp_len (sublist ff) \<noteq> 0
      then first_error
             (map (\<lambda>l. format_normal_line ff l (columns ff))
                (slice_between (items (sublist ff)) (start_index ff) (start_index ff + maxlines ff)))
      else Inr ())"

definition highlight :: "FuzzyFinder \<Rightarrow> int \<Rightarrow> bool \<Rightarrow> exn + unit" where
  "highlight ff index unhighlight =
     (if in_app ff \<and> index < sp_len (sublist ff)
      then (case py_get (items (sublist ff)) index of
              Inl e \<Rightarrow> Inl e
            | Inr x \<Rightarrow> if unhighlight then format_normal_line ff x (columns ff) else format_item ff x)
      else Inr ())"

text \<open>
  \<^verbatim>\<open>
  def scroll_up(self, n=1):
    if self._start_index > 0:
      self._start_index -= min(n, self._start_index)
      self.writelines()
  def scroll_down(self, n=1):
    if self._start_index + self._maxlines < (listsize := len(self._sublist)):
      self._start_index += min(n, listsize - self._start_index - self._maxlines)
      self.writelines()
  def scroll_to_view(self):
    if (offset := self._sublist.pointer - self._start_index) not in range(0, self._maxlines):
      (self.scroll_up if offset < 0 else self.scroll_down)(abs(offset))
  \<close>
\<close>

definition after_writelines :: "FuzzyFinder \<Rightarrow> exn + FuzzyFinder" where
  "after_writelines ff = (case writelines ff of Inl e \<Rightarrow> Inl e | Inr u \<Rightarrow> Inr ff)"

definition scroll_up :: "FuzzyFinder \<Rightarrow> int \<Rightarrow> exn + FuzzyFinder" where
  "scroll_up ff n =
     (if start_index ff > 0
      then after_writelines (ff\<lparr>start_index := start_index ff - min n (start_index ff)\<rparr>)
      else Inr ff)"

definition scroll_down :: "FuzzyFinder \<Rightarrow> int \<Rightarrow> exn + FuzzyFinder" where
  "scroll_down ff n =
     (let listsize = sp_len (sublist ff)
      in if start_index ff + maxlines ff < listsize
         then after_writelines
                (ff\<lparr>start_index := start_index ff + min n (listsize - start_index ff - maxlines ff)\<rparr>)
         else Inr ff)"

definition scroll_to_view :: "FuzzyFinder \<Rightarrow> exn + FuzzyFinder" where
  "scroll_to_view ff =
     (let offset = pointer (sublist ff) - start_index ff
      in if \<not> (0 \<le> offset \<and> offset < maxlines ff)
         then (if offset < 0 then scroll_up ff \<bar>offset\<bar> else scroll_down ff \<bar>offset\<bar>)
         else Inr ff)"

text \<open>
  \<^verbatim>\<open>
  def next_item(self, n=1):
    if len(self._sublist):
      self.highlight(self._sublist.pointer, unhighlight=True)
      self._sublist.next(n)
      if (pointer := self._sublist.pointer) >= self._start_index + self._maxlines:
        self.scroll_down(pointer - self._start_index - self._maxlines + 1)
      self.highlight(pointer)
      self.footer()
      self.flush()
  def previous_item(self, n=1):
    if len(self._sublist):
      self.highlight(self._sublist.pointer, unhighlight=True)
      self._sublist.previous(n)
      if (pointer := self._sublist.pointer) < self._start_index:
        self.scroll_to_view()
      self.highlight(pointer)
      self.footer()
      self.flush()
  \<close>
  The bindings call them with the default \<open>n = 1\<close> or with \<open>len(self.objects)\<close>, and
  \<open>handle_key\<close> with the number of wheel reports in the burst.
\<close>

definition next_item :: "FuzzyFinder \<Rightarrow> int \<Rightarrow> exn + FuzzyFinder" where
  "next_item ff n =
     (if sp_len (sublist ff) \<noteq> 0 then
        (case highlight ff (pointer (sublist ff)) True of
           Inl e \<Rightarrow> Inl e
         | Inr u \<Rightarrow>
             let ff1 = ff\<lparr>sublist := sp_next (sublist ff) n\<rparr>;
                 ptr = pointer (sublist ff1)
             in (case (if ptr \<ge> start_index ff1 + maxlines ff1
                       then scroll_down ff1 (ptr - start_index ff1 - maxlines ff1 + 1)
                       else Inr ff1) of
                   Inl e \<Rightarrow> Inl e
                 | Inr ff2 \<Rightarrow>
                     (case highlight ff2 ptr False of Inl e \<Rightarrow> Inl e | Inr u \<Rightarrow> Inr ff2)))
      else Inr ff)"

definition previous_item :: "FuzzyFinder \<Rightarrow> int \<Rightarrow> exn + FuzzyFinder" where
  "previous_item ff n =
     (if sp_len (sublist ff) \<noteq> 0 then
        (case highlight ff (pointer (sublist ff)) True of
           Inl e \<Rightarrow> Inl e
         | Inr u \<Rightarrow>
             let ff1 = ff\<lparr>sublist := sp_previous (sublist ff) n\<rparr>;
                 ptr = pointer (sublist ff1)
             in (case (if ptr < start_index ff1 then scroll_to_view ff1 else Inr ff1) of
                   Inl e \<Rightarrow> Inl e
                 | Inr ff2 \<Rightarrow>
                     (case highlight ff2 ptr False of Inl e \<Rightarrow> Inl e | Inr u \<Rightarrow> Inr ff2)))
      else Inr ff)"

text \<open>
  \<^verbatim>\<open>
  @contextprotected
  def search_bar(self):
    if (query := self._line_buffer.line) != self._current_query:
      self._current_query = query
      if query == '':
        self._sublist = SequencePointer(self.objects, False)
        self._start_index = 0
        self.writelines()
        self.highlight(0)
      else:
        self._sublist = SequencePointer(
          sorted(
            (obj for obj in self.objects if self._matches_query(query, obj)),
            key=lambda obj: self._matches_query(query, obj)[1],
            reverse=True
          ), False
        )
        self._start_index = 0
        self.clear()
        self.writelines()
        self.highlight(0)
    self.write(f'\x1b[{self.termsize.lines};0H\x1b[2K')
    self.write(self._line_buffer.with_csi())
    self.flush()
  \<close>
  \<open>sorted\<close> is stable, also with \<open>reverse=True\<close>: the candidates are ordered by
  descending score and candidates of equal score keep their order. \<open>results objs query\<close>
  is the list that \<open>search_bar\<close> puts into the sublist for \<open>query\<close>; the first candidate
  on which the matcher raises ends the search with that exception.
\<close>

fun filter_matches :: "string \<Rightarrow> string list \<Rightarrow> exn + string list" where
  "filter_matches query [] = Inr []"
| "filter_matches query (obj # objs) =
     (case matches_query query obj of
        Inl e \<Rightarrow> Inl e
      | Inr m \<Rightarrow>
          (case filter_matches query objs of
             Inl e \<Rightarrow> Inl e
           | Inr rest \<Rightarrow> Inr (if m \<noteq> None then obj # rest else rest)))"

definition score_of :: "string \<Rightarrow> string \<Rightarrow> rat" where
  "score_of query obj =
     (case matches_query query obj of Inr (Some (indices, score)) \<Rightarrow> score | _ \<Rightarrow> 0)"

definition results :: "string list \<Rightarrow> string \<Rightarrow> exn + string list" where
  "results objs query =
     (if query = [] then Inr objs
      else (case filter_matches query objs of
              Inl e \<Rightarrow> Inl e
            | Inr xs \<Rightarrow> Inr (sort_key (\<lambda>obj. - score_of query obj) xs)))"

definition show_results :: "FuzzyFinder \<Rightarrow> string \<Rightarrow> string list \<Rightarrow> exn + FuzzyFinder" where
  "show_results ff query xs =
     (let ff1 = ff\<lparr>current_query := query, sublist := sp_init xs False, start_index := 0\<rparr>
      in (case writelines ff1 of
            Inl e \<Rightarrow> Inl e
          | Inr u \<Rightarrow> (case highlight ff1 0 False of Inl e \<Rightarrow> Inl e | Inr u \<Rightarrow> Inr ff1)))"

definition search_bar :: "FuzzyFinder \<Rightarrow> exn + FuzzyFinder" where
  "search_bar ff =
     (if in_app ff then
        (let query = line (line_buffer ff)
         in if query \<noteq> current_query ff
            then (case results (objects ff) query of
                    Inl e \<Rightarrow> Inl e
                  | Inr xs \<Rightarrow> show_results ff query xs)
            else Inr ff)
      else Inr ff)"

text \<open>
  The state that navigation keeps: the list is not cyclic, the pointer addresses an element,
  the window has at least one line, it starts inside \<open>[0, max(0, len - max_lines)]\<close>, and the
  pointer lies inside the window. \<open>renders\<close>: no line of the sublist raises when it is
  formatted, as a whole or trimmed to the terminal.
\<close>

definition view_ok :: "FuzzyFinder \<Rightarrow> bool" where
  "view_ok ff =
     (\<not> cycle (sublist ff) \<and> in_range (sublist ff) \<and> 0 < maxlines ff
      \<and> 0 \<le> start_index ff \<and> start_index ff \<le> max 0 (sp_len (sublist ff) - maxlines ff)
      \<and> start_index ff \<le> pointer (sublist ff)
      \<and> pointer (sublist ff) < start_index ff + maxlines ff)"

definition renders :: "FuzzyFinder \<Rightarrow> bool" where
  "renders ff =
     list_all (\<lambda>l. format_item ff l = Inr () \<and> format_normal_line ff l (columns ff) = Inr ())
       (items (sublist ff))"

section \<open>Properties of the FuzzyFinder\<close>

lemma first_error_all:
  "(\<forall>x \<in> set xs. x = Inr ()) \<Longrightarrow> first_error xs = Inr ()"
  by (induction xs) auto

lemma set_slice_between: "set (slice_between xs a b) \<subseteq> set xs"
  unfolding slice_between_def
  by (meson set_take_subset set_drop_subset subset_trans)

lemma renders_writelines:
  assumes "renders ff"
  shows "writelines ff = Inr ()"
proof -
  have "format_normal_line ff l (columns ff) = Inr ()"
    if "l \<in> set (slice_between (items (sublist ff)) (start_index ff) (start_index ff + maxlines ff))" for l
    using that assms set_slice_between [of "items (sublist ff)"]
    by (auto simp: renders_def list_all_iff)
  then show ?thesis by (simp add: writelines_def first_error_all)
qed

lemma renders_highlight:
  assumes "renders ff" "0 \<le> i"
  shows "highlight ff i u = Inr ()"
proof (cases "in_app ff \<and> i < sp_len (sublist ff)")
  case True
  with assms(2) have lt: "nat i < length (items (sublist ff))"
    by (simp add: sp_len_def nat_less_iff)
  from True assms(2) have "py_get (items (sublist ff)) i = Inr (items (sublist ff) ! nat i)"
    by (simp add: py_get_def py_index_def sp_len_def)
  moreover from lt have "items (sublist ff) ! nat i \<in> set (items (sublist ff))"
    by (rule nth_mem)
  ultimately have "py_get (items (sublist ff)) i = Inr (items (sublist ff) ! nat i)"
    and "items (sublist ff) ! nat i \<in> set (items (sublist ff))"
    by simp_all
  with assms(1) True show ?thesis
    by (auto simp: highlight_def renders_def list_all_iff)
next
  case False
  then show ?thesis by (auto simp: highlight_def)
qed

lemma renders_moved [simp]:
  "renders (ff\<lparr>sublist := (sublist ff)\<lparr>pointer := p\<rparr>, start_index := s\<rparr>) = renders ff"
  "renders (ff\<lparr>sublist := (sublist ff)\<lparr>pointer := p\<rparr>\<rparr>) = renders ff"
  by (simp_all add: renders_def format_item_def format_normal_line_def)

lemma renders_empty_query: "current_query ff = [] \<Longrightarrow> renders ff"
  by (simp add: renders_def format_item_def format_normal_line_def list_all_iff)

lemma single_fold_trim:
  assumes "single_fold s"
  shows "single_fold (trim s w)"
proof -
  have dot: "length (casefold_char CHR ''.'') = 1" by code_simp
  have "set (trim s w) \<subseteq> set s \<union> {CHR ''.''}"
    using set_take_subset [of _ s] set_drop_subset [of _ s]
    by (auto simp: trim_def trim3_def slice_to_def slice_from_def)
  with assms dot show ?thesis by (auto simp: single_fold_def list_all_iff)
qed

lemma single_fold_renders:
  assumes "single_fold (current_query ff)" "list_all single_fold (items (sublist ff))"
  shows "renders ff"
proof -
  have "format_item ff l = Inr ()" if "single_fold l" for l
  proof (cases "matches_query (current_query ff) l")
    case (Inl e)
    with matches_query_iff [OF that assms(1)] show ?thesis by blast
  next
    case (Inr m)
    then show ?thesis by (simp add: format_item_def)
  qed
  then show ?thesis
    using assms(2) single_fold_trim
    by (auto simp: renders_def list_all_iff format_normal_line_def)
qed

lemma view_ok_init:
  "objs \<noteq> [] \<Longrightarrow> 2 < term_lines \<Longrightarrow> view_ok (ff_init objs term_lines term_columns)"
  by (simp add: view_ok_def ff_init_def sp_init_def in_range_def sp_len_def)

lemma renders_init: "renders (ff_init objs term_lines term_columns)"
  by (simp add: renders_empty_query ff_init_def)

lemma search_bar_results:
  assumes "in_app ff" "line (line_buffer ff) \<noteq> current_query ff" "search_bar ff = Inr ff'"
  shows "results (objects ff) (line (line_buffer ff)) = Inr (items (sublist ff'))"
    and "current_query ff' = line (line_buffer ff)"
    and "pointer (sublist ff') = 0" and "start_index ff' = 0"
  using assms
  by (auto simp: search_bar_def show_results_def sp_init_def Let_def split: sum.splits)

lemma next_item_view:
  assumes "view_ok ff" "renders ff" "0 \<le> n"
  defines "p' \<equiv> min (pointer (sublist ff) + n) (sp_len (sublist ff) - 1)"
  defines "s' \<equiv> (if start_index ff + maxlines ff \<le> p' then p' - maxlines ff + 1 else start_index ff)"
  shows "next_item ff n = Inr (ff\<lparr>sublist := (sublist ff)\<lparr>pointer := p'\<rparr>, start_index := s'\<rparr>)"
    and "view_ok (ff\<lparr>sublist := (sublist ff)\<lparr>pointer := p'\<rparr>, start_index := s'\<rparr>)"
proof -
  let ?f1 = "ff\<lparr>sublist := (sublist ff)\<lparr>pointer := p'\<rparr>\<rparr>"
  let ?f2 = "ff\<lparr>sublist := (sublist ff)\<lparr>pointer := p'\<rparr>, start_index := s'\<rparr>"
  from assms(1) have inv: "\<not> cycle (sublist ff)" "0 \<le> pointer (sublist ff)"
    "pointer (sublist ff) < sp_len (sublist ff)" "0 < maxlines ff" "0 \<le> start_index ff"
    "start_index ff \<le> max 0 (sp_len (sublist ff) - maxlines ff)"
    "start_index ff \<le> pointer (sublist ff)" "pointer (sublist ff) < start_index ff + maxlines ff"
    by (simp_all add: view_ok_def in_range_def)
  have nx: "sp_next (sublist ff) n = (sublist ff)\<lparr>pointer := p'\<rparr>"
    using inv(1) by (simp add: sp_next_def Let_def p'_def min_def)
  have p0: "0 \<le> p'" "p' < sp_len (sublist ff)" "pointer (sublist ff) \<le> p'"
    using inv assms(3) by (simp_all add: p'_def min_def)
  have len: "sp_len ((sublist ff)\<lparr>pointer := p'\<rparr>) = sp_len (sublist ff)"
    by (simp add: sp_len_def)
  have w2: "writelines ?f2 = Inr ()"
    using assms(2) by (intro renders_writelines) simp
  have sd: "(if start_index ff + maxlines ff \<le> p'
             then scroll_down ?f1 (p' - start_index ff - maxlines ff + 1)
             else Inr ?f1) = Inr ?f2"
  proof (cases "start_index ff + maxlines ff \<le> p'")
    case True
    with p0 have "?f1\<lparr>start_index := start_index ?f1
              + min (p' - start_index ff - maxlines ff + 1) (sp_len (sublist ?f1) - start_index ?f1 - maxlines ?f1)\<rparr>
            = ?f2"
      by (simp add: len s'_def min_def)
    with True p0 w2 show ?thesis
      by (simp add: scroll_down_def Let_def len after_writelines_def)
  next
    case False
    then show ?thesis by (simp add: s'_def)
  qed
  have h1: "highlight ff (pointer (sublist ff)) True = Inr ()"
    using assms(2) inv(2) by (rule renders_highlight)
  have h2: "highlight ?f2 p' False = Inr ()"
    using p0(1) assms(2) by (intro renders_highlight) simp_all
  have cond: "(start_index ?f1 + maxlines ?f1 \<le> pointer (sublist ?f1)) = (start_index ff + maxlines ff \<le> p')"
    by simp
  show "next_item ff n = Inr ?f2"
    using inv(2,3) h1 h2 sd
    by (simp add: next_item_def nx Let_def del: renders_moved split: if_splits)
  show "view_ok ?f2"
    using inv p0 by (auto simp: view_ok_def in_range_def len s'_def)
qed

lemma previous_item_view:
  assumes "view_ok ff" "renders ff" "0 \<le> n"
  defines "p' \<equiv> max (pointer (sublist ff) - n) 0"
  defines "s' \<equiv> (if p' < start_index ff then p' else start_index ff)"
  shows "previous_item ff n = Inr (ff\<lparr>sublist := (sublist ff)\<lparr>pointer := p'\<rparr>, start_index := s'\<rparr>)"
    and "view_ok (ff\<lparr>sublist := (sublist ff)\<lparr>pointer := p'\<rparr>, start_index := s'\<rparr>)"
proof -
  let ?f1 = "ff\<lparr>sublist := (sublist ff)\<lparr>pointer := p'\<rparr>\<rparr>"
  let ?f2 = "ff\<lparr>sublist := (sublist ff)\<lparr>pointer := p'\<rparr>, start_index := s'\<rparr>"
  from assms(1) have inv: "\<not> cycle (sublist ff)" "0 \<le> pointer (sublist ff)"
    "pointer (sublist ff) < sp_len (sublist ff)" "0 < maxlines ff" "0 \<le> start_index ff"
    "start_index ff \<le> max 0 (sp_len (sublist ff) - maxlines ff)"
    "start_index ff \<le> pointer (sublist ff)" "pointer (sublist ff) < start_index ff + maxlines ff"
    by (simp_all add: view_ok_def in_range_def)
  have pv: "sp_previous (sublist ff) n = (sublist ff)\<lparr>pointer := p'\<rparr>"
    using inv(1) by (simp add: sp_previous_def Let_def p'_def max_def)
  have p0: "0 \<le> p'" "p' < sp_len (sublist ff)" "p' \<le> pointer (sublist ff)"
    using inv assms(3) by (simp_all add: p'_def max_def)
  have len: "sp_len ((sublist ff)\<lparr>pointer := p'\<rparr>) = sp_len (sublist ff)"
    by (simp add: sp_len_def)
  have w2: "writelines ?f2 = Inr ()"
    using assms(2) by (intro renders_writelines) simp
  have sv: "(if p' < start_index ff then scroll_to_view ?f1 else Inr ?f1) = Inr ?f2"
  proof (cases "p' < start_index ff")
    case True
    with p0 have "?f1\<lparr>start_index := start_index ?f1 - min \<bar>p' - start_index ff\<bar> (start_index ?f1)\<rparr> = ?f2"
      by (simp add: s'_def min_def)
    with True p0 w2 show ?thesis
      by (simp add: scroll_to_view_def scroll_up_def Let_def after_writelines_def)
  next
    case False
    then show ?thesis by (simp add: s'_def)
  qed
  have h1: "highlight ff (pointer (sublist ff)) True = Inr ()"
    using assms(2) inv(2) by (rule renders_highlight)
  have h2: "highlight ?f2 p' False = Inr ()"
    using p0(1) assms(2) by (intro renders_highlight) simp_all
  show "previous_item ff n = Inr ?f2"
    using inv(2,3) h1 h2 sv
    by (simp add: previous_item_def pv Let_def del: renders_moved split: if_splits)
  show "view_ok ?f2"
    using inv p0 by (auto simp: view_ok_def in_range_def len s'_def)
qed

text \<open>
  Claim C5 (amended). In a finder whose sublist is not empty, whose window has at least
  one line, whose pointer is inside the window (as it is after construction and after
  every search on a terminal of more than two lines) and whose lines are formatted without
  an exception (as they are when the query is empty or the candidates are ASCII),
  \<open>next_item(n)\<close> and \<open>previous_item(n)\<close> with \<open>n \<ge> 0\<close> return normally, move the
  pointer to \<open>min(p + n, len - 1)\<close> and \<open>max(p - n, 0)\<close>, and move \<open>start_index\<close> by
  exactly what brings the pointer back into the window: to \<open>p' - max_lines + 1\<close> when the
  pointer passed the bottom, to \<open>p'\<close> when it passed the top, and not at all otherwise.
  Afterwards the pointer lies in \<open>[start_index, start_index + max_lines)\<close> and
  \<open>start_index\<close> in \<open>[0, max(0, len - max_lines)]\<close>. On 50 items with \<open>max_lines = 10\<close>,
  \<open>next_item(15)\<close> gives pointer 15 and start 6, and then \<open>previous_item(20)\<close> gives
  pointer 0 and start 0.
\<close>

theorem viewport_follows_pointer:
  assumes "view_ok ff" "renders ff" "0 \<le> n"
  shows "(let p' = min (pointer (sublist ff) + n) (sp_len (sublist ff) - 1);
              s' = (if start_index ff + maxlines ff \<le> p' then p' - maxlines ff + 1 else start_index ff);
              ff' = ff\<lparr>sublist := (sublist ff)\<lparr>pointer := p'\<rparr>, start_index := s'\<rparr>
          in next_item ff n = Inr ff' \<and> view_ok ff' \<and> renders ff')
       \<and> (let p' = max (pointer (sublist ff) - n) 0;
              s' = (if p' < start_index ff then p' else start_index ff);
              ff' = ff\<lparr>sublist := (sublist ff)\<lparr>pointer := p'\<rparr>, start_index := s'\<rparr>
          in previous_item ff n = Inr ff' \<and> view_ok ff' \<and> renders ff')
       \<and> view_ok (ff_init (replicate 50 ''item'') 12 80)
       \<and> renders (ff_init (replicate 50 ''item'') 12 80)
       \<and> maxlines (ff_init (replicate 50 ''item'') 12 80) = 10
       \<and> next_item (ff_init (replicate 50 ''item'') 12 80) 15
           = Inr ((ff_init (replicate 50 ''item'') 12 80)
                    \<lparr>sublist := (sp_init (replicate 50 ''item'') False)\<lparr>pointer := 15\<rparr>,
                     start_index := 6\<rparr>)
       \<and> previous_item ((ff_init (replicate 50 ''item'') 12 80)
                    \<lparr>sublist := (sp_init (replicate 50 ''item'') False)\<lparr>pointer := 15\<rparr>,
                     start_index := 6\<rparr>) 20
           = Inr ((ff_init (replicate 50 ''item'') 12 80)
                    \<lparr>sublist := (sp_init (replicate 50 ''item'') False)\<lparr>pointer := 0\<rparr>,
                     start_index := 0\<rparr>)"
proof -
  let ?f0 = "ff_init (replicate 50 ''item'') 12 80"
  let ?f1 = "?f0\<lparr>sublist := (sp_init (replicate 50 ''item'') False)\<lparr>pointer := 15\<rparr>, start_index := 6\<rparr>"
  have v0: "view_ok ?f0" by (simp add: view_ok_init)
  have r0: "renders ?f0" by (rule renders_init)
  have f0: "sublist ?f0 = sp_init (replicate 50 ''item'') False" "start_index ?f0 = 0" "maxlines ?f0 = 10"
    by (simp_all add: ff_init_def)
  have l0: "sp_len (sp_init (replicate 50 ''item'') False) = 50"
           "pointer (sp_init (replicate 50 ''item'') False) = 0"
    by (simp_all add: sp_len_def sp_init_def)
  have k: "(0::int) \<le> 15" "(0::int) \<le> 20" by simp_all
  have n1: "next_item ?f0 15 = Inr ?f1"
    using next_item_view(1) [OF v0 r0 k(1)] by (simp add: f0 l0)
  have v1: "view_ok ?f1"
    using next_item_view(2) [OF v0 r0 k(1)] by (simp add: f0 l0)
  have r1: "renders ?f1"
    by (rule renders_empty_query) (simp add: ff_init_def)
  have f1: "sublist ?f1 = (sp_init (replicate 50 ''item'') False)\<lparr>pointer := 15\<rparr>" "start_index ?f1 = 6"
    by simp_all
  have p2: "previous_item ?f1 20 = Inr (?f0\<lparr>sublist := (sp_init (replicate 50 ''item'') False)\<lparr>pointer := 0\<rparr>, start_index := 0\<rparr>)"
    using previous_item_view(1) [OF v1 r1 k(2)] by (simp add: f1)
  show ?thesis
    using next_item_view [OF assms] previous_item_view [OF assms] assms(2) v0 r0 n1 p2 f0(3)
    by (simp add: Let_def)
qed

theorem viewport_follows_pointer_witness:
  "view_ok (ff_init [''a'', ''b'', ''c'', ''d'', ''e''] 4 80)
   \<and> renders (ff_init [''a'', ''b'', ''c'', ''d'', ''e''] 4 80)
   \<and> next_item (ff_init [''a'', ''b'', ''c'', ''d'', ''e''] 4 80) 3
       = Inr ((ff_init [''a'', ''b'', ''c'', ''d'', ''e''] 4 80)
                \<lparr>sublist := (sp_init [''a'', ''b'', ''c'', ''d'', ''e''] False)\<lparr>pointer := 3\<rparr>,
                 start_index := 2\<rparr>)"
proof -
  have v: "view_ok (ff_init [''a'', ''b'', ''c'', ''d'', ''e''] 4 80)"
    by (simp add: view_ok_def ff_init_def sp_init_def in_range_def sp_len_def)
  have r: "renders (ff_init [''a'', ''b'', ''c'', ''d'', ''e''] 4 80)"
    by (rule renders_init)
  have n: "(0::int) \<le> 3" by simp
  show ?thesis
    using v r viewport_follows_pointer [OF v r n]
    by (simp add: Let_def ff_init_def sp_init_def sp_len_def)
qed

text \<open>
  The claim as stated fails. \<open>n\<close> is meant as a count: \<open>next_item(-1)\<close> from pointer 0
  leaves the pointer at \<open>-1\<close>, above the window. And on a terminal of two lines the window
  has no line: \<open>next_item(1)\<close> leaves the pointer at 1 and \<open>start_index\<close> at 2.
\<close>

theorem next_item_outside_window:
  "view_ok (ff_init (replicate 50 ''item'') 12 80)
   \<and> next_item (ff_init (replicate 50 ''item'') 12 80) (- 1)
       = Inr ((ff_init (replicate 50 ''item'') 12 80)
                \<lparr>sublist := (sp_init (replicate 50 ''item'') False)\<lparr>pointer := - 1\<rparr>\<rparr>)
   \<and> start_index (ff_init (replicate 50 ''item'') 12 80) = 0
   \<and> maxlines (ff_init (replicate 50 ''item'') 2 80) = 0
   \<and> next_item (ff_init (replicate 50 ''item'') 2 80) 1
       = Inr ((ff_init (replicate 50 ''item'') 2 80)
                \<lparr>sublist := (sp_init (replicate 50 ''item'') False)\<lparr>pointer := 1\<rparr>,
                 start_index := 2\<rparr>)"
  by (simp add: view_ok_init)
     (simp add: ff_init_def next_item_def highlight_def sp_next_def sp_init_def sp_len_def
        scroll_down_def after_writelines_def writelines_def Let_def)

text \<open>
  Claim C4 (amended). For every non-empty query \<open>q\<close>, character \<open>c\<close> and candidate:
  if \<open>_matches_query(q + c, item)\<close> accepts the item then \<open>_matches_query(q, item)\<close>
  accepts it. For every query, the empty one included, the list that \<open>search_bar\<close> shows
  for \<open>q + c\<close> holds no candidate that the list for \<open>q\<close> lacks (for the empty query
  \<open>search_bar\<close> shows all candidates without asking the matcher).
\<close>

lemma filter_matches_subset:
  "filter_matches q objs = Inr xs \<Longrightarrow> set xs \<subseteq> set objs"
  by (induction objs arbitrary: xs) (auto split: sum.splits if_splits)

lemma filter_matches_mono:
  assumes "q \<noteq> []"
  shows "filter_matches (q @ [c]) objs = Inr xs \<Longrightarrow>
         \<exists>ys. filter_matches q objs = Inr ys \<and> set xs \<subseteq> set ys"
proof (induction objs arbitrary: xs)
  case Nil
  then show ?case by simp
next
  case (Cons obj objs)
  from Cons.prems obtain m rest where m: "matches_query (q @ [c]) obj = Inr m"
    and rest: "filter_matches (q @ [c]) objs = Inr rest"
    and xs: "xs = (if m \<noteq> None then obj # rest else rest)"
    by (auto split: sum.splits)
  from Cons.IH [OF rest] obtain ys where ys: "filter_matches q objs = Inr ys" "set rest \<subseteq> set ys"
    by blast
  from matches_query_prefix_returns [OF m] obtain m' where m': "matches_query q obj = Inr m'"
    by blast
  have "m \<noteq> None \<Longrightarrow> m' \<noteq> None"
    using matches_query_prefix [OF assms, of c obj] m m' by auto
  with ys m' xs show ?case by auto
qed

theorem fuzzy_match_monotone:
  "(q \<noteq> [] \<and> matches_query (q @ [c]) item = Inr (Some r) \<longrightarrow> (\<exists>r'. matches_query q item = Inr (Some r')))
   \<and> (results objs (q @ [c]) = Inr xs \<longrightarrow> (\<exists>ys. results objs q = Inr ys \<and> set xs \<subseteq> set ys))"
proof -
  have "\<exists>ys. results objs q = Inr ys \<and> set xs \<subseteq> set ys" if r: "results objs (q @ [c]) = Inr xs"
  proof -
    from r obtain zs where zs: "filter_matches (q @ [c]) objs = Inr zs" "set xs = set zs"
      by (auto simp: results_def split: sum.splits)
    show ?thesis
    proof (cases "q = []")
      case True
      with zs filter_matches_subset [OF zs(1)] show ?thesis by (simp add: results_def)
    next
      case False
      from filter_matches_mono [OF False zs(1)] obtain ys where
        "filter_matches q objs = Inr ys" "set zs \<subseteq> set ys" by blast
      with False zs show ?thesis by (simp add: results_def)
    qed
  qed
  then show ?thesis using matches_query_prefix [of q c item r] by blast
qed

theorem fuzzy_match_monotone_witness:
  "matches_query ''ap'' ''apple'' = Inr (Some ([0, 1], 1))
   \<and> (\<exists>r'. matches_query ''a'' ''apple'' = Inr (Some r'))
   \<and> results [''apple'', ''plum''] ''ap'' = Inr [''apple'']
   \<and> (\<exists>ys. results [''apple'', ''plum''] ''a'' = Inr ys \<and> set [''apple''] \<subseteq> set ys)"
proof -
  have m: "matches_query (''a'' @ [CHR ''p'']) ''apple'' = Inr (Some ([0, 1], 1))" by code_simp
  have r: "results [''apple'', ''plum''] (''a'' @ [CHR ''p'']) = Inr [''apple'']" by code_simp
  show ?thesis
    using m r fuzzy_match_monotone [of "''a''" "CHR ''p''" "''apple''" "([0, 1], 1)" "[''apple'', ''plum'']" "[''apple'']"]
    by simp
qed

text \<open>
  The claim as stated fails at the empty query: the matcher accepts \<open>a\<close> for the query \<open>a\<close>
  and accepts nothing for the empty query.
\<close>

theorem empty_query_matches_nothing:
  "matches_query ([] @ [CHR ''a'']) ''a'' = Inr (Some ([0], 1)) \<and> matches_query [] ''a'' = Inr None"
  by code_simp

text \<open>
  Claim C2 (amended). On a non-empty list whose pointer is in range, \<open>next(k)\<close> and
  \<open>previous(k)\<close> with \<open>0 \<le> k\<close> leave the pointer in range when the list is not cyclic, or
  when it is cyclic and \<open>k\<close> is at most the length; assigning a pointer value above
  \<open>len - 1\<close> sets it to \<open>len - 1\<close>, and assigning any non-negative value leaves it in range.
  A new list, empty or not, has pointer 0; \<open>previous\<close> leaves the pointer of an empty
  non-cyclic list at 0; and the finder does not move the pointer of an empty sublist:
  \<open>next_item\<close> and \<open>previous_item\<close> return at once.
\<close>

theorem sp_pointer_amended:
  assumes "in_range s" "0 \<le> k"
  shows "(\<not> cycle s \<or> k \<le> sp_len s \<longrightarrow> in_range (sp_next s k) \<and> in_range (sp_previous s k))
     \<and> (sp_len s - 1 < v \<longrightarrow> pointer (sp_set_pointer s v) = sp_len s - 1)
     \<and> (0 \<le> v \<longrightarrow> in_range (sp_set_pointer s v))
     \<and> pointer (sp_init xs cyc) = 0
     \<and> pointer (sp_previous (sp_init [] False) k) = 0
     \<and> (sp_len (sublist ff) = 0 \<longrightarrow> next_item ff n = Inr ff \<and> previous_item ff n = Inr ff)"
proof -
  from assms have r: "0 \<le> pointer s" "pointer s < sp_len s" by (simp_all add: in_range_def)
  have a: "in_range (sp_next s k)" if "\<not> cycle s \<or> k \<le> sp_len s"
    using that r assms(2) by (auto simp: in_range_def sp_next_def sp_len_def Let_def)
  have b: "in_range (sp_previous s k)" if "\<not> cycle s \<or> k \<le> sp_len s"
    using that r assms(2) by (auto simp: in_range_def sp_previous_def sp_len_def Let_def)
  have c: "pointer (sp_set_pointer s v) = sp_len s - 1" if "sp_len s - 1 < v"
    using that by (simp add: sp_set_pointer_def)
  have d: "in_range (sp_set_pointer s v)" if "0 \<le> v"
    using that r by (auto simp: in_range_def sp_set_pointer_def sp_len_def)
  have e: "pointer (sp_init xs cyc) = 0" by (simp add: sp_init_def)
  have f: "pointer (sp_previous (sp_init [] False) k) = 0"
    using assms(2) by (simp add: sp_previous_def sp_init_def sp_len_def Let_def)
  have g: "next_item ff n = Inr ff \<and> previous_item ff n = Inr ff" if "sp_len (sublist ff) = 0"
    using that by (simp add: next_item_def previous_item_def)
  from a b c d e f g show ?thesis by blast
qed

theorem sp_pointer_amended_witness:
  "in_range (sp_init ''abc'' True) \<and> in_range (sp_next (sp_init ''abc'' True) 3)
   \<and> in_range (sp_previous (sp_init ''abc'' True) 3)
   \<and> pointer (sp_set_pointer (sp_init ''abc'' True) 7) = 2
   \<and> next_item (ff_init [] 24 80) 1 = Inr (ff_init [] 24 80)"
proof -
  have r: "in_range (sp_init ''abc'' True)" by (simp add: in_range_def sp_init_def sp_len_def)
  have k: "(0::int) \<le> 3" by simp
  have l: "sp_len (sp_init ''abc'' True) = 3" by (simp add: sp_len_def sp_init_def)
  have e: "sp_len (sublist (ff_init [] 24 80)) = 0" by (simp add: sp_len_def sp_init_def ff_init_def)
  show ?thesis
    using r l e sp_pointer_amended [OF r k, of 7 "''''" True "ff_init [] 24 80" 1]
    by auto
qed

text \<open>
  The claim as stated fails: on the empty non-cyclic list \<open>next(1)\<close> moves the pointer
  from 0 to \<open>-1\<close>, and assigning a negative pointer to a non-empty list is not clamped.
\<close>

theorem sp_next_empty_moves:
  "pointer (sp_init ([] :: string) False) = 0
   \<and> pointer (sp_next (sp_init ([] :: string) False) 1) = - 1
   \<and> \<not> in_range (sp_set_pointer (sp_init ''abc'' False) (- 5))"
  by (simp add: sp_init_def sp_next_def sp_set_pointer_def sp_len_def in_range_def)

section \<open>termutils.py: TermInReader\<close>

text \<open>
  The terminal attributes of stdin, as far as the recorder reads and writes them: the
  local flags ECHO and ICANON, the control characters VMIN and VTIME, and one flag for
  the remaining input, output and signal processing that \<open>tty.setraw\<close> switches off.
  \<open>tty.setraw\<close> belongs to the standard library: it clears ECHO, ICANON and that
  processing and sets VMIN to 1 and VTIME to 0. The model covers a POSIX system whose
  stdin is a terminal: \<open>import tty, termios\<close> succeeds and \<open>select\<close> does not raise.
\<close>

record termios =
  echo :: bool
  icanon :: bool
  processing :: bool
  vmin :: nat
  vtime :: nat

definition setraw :: "termios \<Rightarrow> termios" where
  "setraw t = t\<lparr>echo := False, icanon := False, processing := False, vmin := 1, vtime := 0\<rparr>"

text \<open>
  A recorder. Hooks and bound actions are callables of the application: the recorder
  holds their identities (numbers), and what a callable does is given to the model as a
  parameter (see \<open>run_actions\<close>). \<open>func\<close> is \<open>__func\<close>: \<open>None\<close> stands for
  \<open>lambda _: None\<close>. \<open>bindings\<close> gives for a key the list \<open>self.bindings.get(key, [])\<close>.
  \<^verbatim>\<open>
  def __init__(self, *hooks):
    self.__instances.add(self)
    self.hooks = hooks
    self.__func = hooks[0] if hooks else lambda _: None
    self.normal = True
    self._old_settings = None
    self.bindings = {}
  def bind(self, code, func):
    if isinstance(code, Ctrl):
      for _code in code.codes:
        self.bind(_code, func)
    else:
      self.bindings.setdefault(code, []).append(func)
  \<close>
\<close>

record TermInReader =
  hooks :: "nat list"
  func :: "nat option"
  normal :: bool
  old_settings :: "termios option"
  bindings :: "string \<Rightarrow> nat list"

text \<open>
  The process: the registry \<open>__instances\<close> of the live recorders, each under its
  identity, the attributes of the terminal, whether \<open>sys.stdin\<close> is closed or a pipe, what
  \<open>select\<close> answers, the decoded bursts that the next reads of stdin return (a read returns
  the empty string once they are used up), and the state of the application that hooks
  and actions work on.
\<close>

record 'a process =
  instances :: "(nat \<times> TermInReader) list"
  tty :: termios
  stdin_closed :: bool
  stdin_fifo :: bool
  select_ready :: bool
  stdin_reads :: "string list"
  app :: 'a

type_synonym 'a action = "'a process \<Rightarrow> exn option \<times> 'a process"

definition recorder_init :: "nat list \<Rightarrow> TermInReader" where
  "recorder_init hs =
     \<lparr>hooks = hs, func = (if hs \<noteq> [] then Some (hd hs) else None), normal = True,
      old_settings = None, bindings = (\<lambda>k. [])\<rparr>"

definition new_recorder :: "nat \<Rightarrow> nat list \<Rightarrow> 'a process \<Rightarrow> 'a process" where
  "new_recorder r hs s = s\<lparr>instances := instances s @ [(r, recorder_init hs)]\<rparr>"

definition bind_str :: "TermInReader \<Rightarrow> string \<Rightarrow> nat \<Rightarrow> TermInReader" where
  "bind_str rc code f = rc\<lparr>bindings := (bindings rc)(code := bindings rc code @ [f])\<rparr>"

definition bind_ctrl :: "TermInReader \<Rightarrow> Ctrl \<Rightarrow> nat \<Rightarrow> TermInReader" where
  "bind_ctrl rc code f = foldl (\<lambda>x c. bind_str x c f) rc (codes code)"

definition update_recorder :: "nat \<Rightarrow> (TermInReader \<Rightarrow> TermInReader) \<Rightarrow> 'a process \<Rightarrow> 'a process" where
  "update_recorder r f s =
     s\<lparr>instances := map (\<lambda>(i, rc). if i = r then (i, f rc) else (i, rc)) (instances s)\<rparr>"

text \<open>
  A method runs on a live recorder; called with an identity that the registry does not
  hold, the model answers with an exception of its own.
\<close>

definition dead :: exn where
  "dead = OtherError ''no such recorder''"

text \<open>
  \<^verbatim>\<open>
  def new_settings(self):
    if S_ISFIFO(os.fstat(0).st_mode):
      raise TypeError('Cannot read keyboard input from stdin when piped')
    if self.normal:
      try:
        import tty, termios
        if sys.stdin.closed:
          raise TypeError('stdin is closed')
        tty.setraw(sys.stdin.fileno())
        if not self._old_settings:
          self._old_settings = termios.tcgetattr(sys.stdin)
        new_settings = termios.tcgetattr(sys.stdin)
        new_settings[3] = new_settings[3] & ~(termios.ECHO | termios.ICANON)  # lflags
        new_settings[6][termios.VMIN] = 0  # cc
        new_settings[6][termios.VTIME] = 0  # cc
        termios.tcsetattr(sys.stdin, termios.TCSADRAIN, new_settings)
      except ImportError:
        pass
      finally:
        self.normal = False
  \<close>
\<close>

definition new_settings :: "nat \<Rightarrow> 'a process \<Rightarrow> exn option \<times> 'a process" where
  "new_settings r s =
     (case map_of (instances s) r of
        None \<Rightarrow> (Some dead, s)
      | Some rc \<Rightarrow>
          if stdin_fifo s
          then (Some (TypeError ''Cannot read keyboard input from stdin when piped''), s)
          else if normal rc then
            if stdin_closed s
            then (Some (TypeError ''stdin is closed''), update_recorder r (\<lambda>x. x\<lparr>normal := False\<rparr>) s)
            else
              let t1 = setraw (tty s);
                  old = (case old_settings rc of None \<Rightarrow> Some t1 | Some t \<Rightarrow> Some t);
                  t2 = t1\<lparr>echo := False, icanon := False, vmin := 0, vtime := 0\<rparr>
              in (None, update_recorder r (\<lambda>x. x\<lparr>old_settings := old, normal := False\<rparr>)
                          (s\<lparr>tty := t2\<rparr>))
          else (None, s))"

text \<open>
  \<^verbatim>\<open>
  def end(self):
    if not self.normal:
      try:
        import termios
        if not sys.stdin.closed:
          termios.tcsetattr(sys.stdin, termios.TCSADRAIN, self._old_settings)
      except ImportError:
        pass
      finally:
        if not sys.stdin.closed:
          sys.stdin.flush()
        self.normal = True
  \<close>
  \<open>tcsetattr\<close> raises a \<open>TypeError\<close> when \<open>_old_settings\<close> is still \<open>None\<close>.
\<close>

definition end_recorder :: "nat \<Rightarrow> 'a process \<Rightarrow> exn option \<times> 'a process" where
  "end_recorder r s =
     (case map_of (instances s) r of
        None \<Rightarrow> (Some dead, s)
      | Some rc \<Rightarrow>
          if \<not> normal rc then
            (if stdin_closed s
             then (None, update_recorder r (\<lambda>x. x\<lparr>normal := True\<rparr>) s)
             else (case old_settings rc of
                     None \<Rightarrow> (Some (TypeError ''tcsetattr, arg 3: must be 7 element list''),
                              update_recorder r (\<lambda>x. x\<lparr>normal := True\<rparr>) s)
                   | Some t \<Rightarrow> (None, update_recorder r (\<lambda>x. x\<lparr>normal := True\<rparr>) (s\<lparr>tty := t\<rparr>))))
          else (None, s))"

text \<open>
  \<^verbatim>\<open>
  def _handle(self, key):
    for f in self.bindings.get(key, []):
      f()
    if key == '\x04':
      # rescue key
      self.end()
      sys.exit(1)
    self.__func(key)
  \<close>
  \<open>acts\<close> gives what the action with a given identity does, \<open>hks\<close> what a hook does with
  a key. The first exception ends the method.
\<close>

fun run_actions :: "(nat \<Rightarrow> 'a action) \<Rightarrow> nat list \<Rightarrow> 'a action" where
  "run_actions acts [] s = (None, s)"
| "run_actions acts (f # fs) s =
     (case acts f s of
        (Some e, s1) \<Rightarrow> (Some e, s1)
      | (None, s1) \<Rightarrow> run_actions acts fs s1)"

definition handle :: "(nat \<Rightarrow> 'a action) \<Rightarrow> (nat \<Rightarrow> string \<Rightarrow> 'a action) \<Rightarrow> nat \<Rightarrow> string \<Rightarrow> 'a action" where
  "handle acts hks r k s =
     (case map_of (instances s) r of
        None \<Rightarrow> (Some dead, s)
      | Some rc \<Rightarrow>
          (case run_actions acts (bindings rc k) s of
             (Some e, s1) \<Rightarrow> (Some e, s1)
           | (None, s1) \<Rightarrow>
               if k = [CHR 0x04]
               then (case end_recorder r s1 of
                       (Some e, s2) \<Rightarrow> (Some e, s2)
                     | (None, s2) \<Rightarrow> (Some (SystemExit 1), s2))
               else (case map_of (instances s1) r of
                       None \<Rightarrow> (Some dead, s1)
                     | Some rc1 \<Rightarrow>
                         (case func rc1 of None \<Rightarrow> (None, s1) | Some h \<Rightarrow> hks h k s1))))"

text \<open>
  \<^verbatim>\<open>
  def record(self, timeout=None):
    self.normal = False
    try:
      ready, _, _ = select.select([sys.stdin], [], [], timeout)
      while ready and not self.normal:
        b = sys.stdin.buffer.read()
        try:
          key = b.decode('utf-8')
        except UnicodeDecodeError:
          key = b.decode('iso-8859-1')
        if len(key):
          self._handle(key)
    except OSError:
      ...
  \<close>
  The loop may run forever: it runs on fuel, one unit for each pass, and \<open>None\<close> is the
  answer when the fuel is used up before the loop ends. The timeout only decides what
  \<open>select\<close> answers, which is the field \<open>select_ready\<close>; the loop keeps that answer in
  \<open>ready\<close>.
\<close>

fun record_loop :: "nat \<Rightarrow> bool \<Rightarrow> (nat \<Rightarrow> 'a action) \<Rightarrow> (nat \<Rightarrow> string \<Rightarrow> 'a action) \<Rightarrow> nat \<Rightarrow> 'a process \<Rightarrow> (exn option \<times> 'a process) option" where
  "record_loop 0 ready acts hks r s = None"
| "record_loop (Suc fuel) ready acts hks r s =
     (case map_of (instances s) r of
        None \<Rightarrow> Some (Some dead, s)
      | Some rc \<Rightarrow>
          if ready \<and> \<not> normal rc then
            (case stdin_reads s of
               [] \<Rightarrow> record_loop fuel ready acts hks r s
             | k # rest \<Rightarrow>
                 if k \<noteq> []
                 then (case handle acts hks r k (s\<lparr>stdin_reads := rest\<rparr>) of
                         (Some e, s1) \<Rightarrow> Some (Some e, s1)
                       | (None, s1) \<Rightarrow> record_loop fuel ready acts hks r s1)
                 else record_loop fuel ready acts hks r (s\<lparr>stdin_reads := rest\<rparr>))
          else Some (None, s))"

definition record_keys :: "nat \<Rightarrow> (nat \<Rightarrow> 'a action) \<Rightarrow> (nat \<Rightarrow> string \<Rightarrow> 'a action) \<Rightarrow> nat \<Rightarrow> 'a process \<Rightarrow> (exn option \<times> 'a process) option" where
  "record_keys fuel acts hks r s =
     record_loop fuel (select_ready s) acts hks r (update_recorder r (\<lambda>x. x\<lparr>normal := False\<rparr>) s)"

text \<open>
  \<^verbatim>\<open>
  def start(self, timeout=None):
    if any(not instance.normal for instance in self.__instances if instance is not self):
      raise TypeError('conflicting terminal recorders')
    self.new_settings()
    try:
      self.record(timeout)
    except (KeyboardInterrupt, SystemExit):
      pass
    finally:
      self.end()
  \<close>
\<close>

definition swallowed :: "exn \<Rightarrow> bool" where
  "swallowed e = (case e of KeyboardInterrupt \<Rightarrow> True | SystemExit c \<Rightarrow> True | _ \<Rightarrow> False)"

definition start :: "nat \<Rightarrow> (nat \<Rightarrow> 'a action) \<Rightarrow> (nat \<Rightarrow> string \<Rightarrow> 'a action) \<Rightarrow> nat \<Rightarrow> 'a process \<Rightarrow> (exn option \<times> 'a process) option" where
  "start fuel acts hks r s =
     (if list_ex (\<lambda>(i, rc). i \<noteq> r \<and> \<not> normal rc) (instances s)
      then Some (Some (TypeError ''conflicting terminal recorders''), s)
      else (case new_settings r s of
              (Some e, s1) \<Rightarrow> Some (Some e, s1)
            | (None, s1) \<Rightarrow>
                (case record_keys fuel acts hks r s1 of
                   None \<Rightarrow> None
                 | Some (e2, s2) \<Rightarrow>
                     (case end_recorder r s2 of
                        (Some e3, s3) \<Rightarrow> Some (Some e3, s3)
                      | (None, s3) \<Rightarrow>
                          Some (case e2 of
                                  None \<Rightarrow> None
                                | Some e \<Rightarrow> if swallowed e then None else Some e, s3)))))"

text \<open>
  Stand-ins for the callables of an application, for running the recorder on concrete
  input: an action and a hook that do nothing, an action that counts its calls in the
  state of the application, and a process with a terminal in its original line
  discipline.
\<close>

definition idle_action :: "nat \<Rightarrow> 'a action" where
  "idle_action f s = (None, s)"

definition idle_hook :: "nat \<Rightarrow> string \<Rightarrow> 'a action" where
  "idle_hook h k s = (None, s)"

definition counting_action :: "nat \<Rightarrow> nat action" where
  "counting_action f s = (None, s\<lparr>app := app s + 1\<rparr>)"

definition cooked :: termios where
  "cooked = \<lparr>echo = True, icanon = True, processing = True, vmin = 1, vtime = 0\<rparr>"

definition fresh_process :: "string list \<Rightarrow> nat process" where
  "fresh_process reads =
     \<lparr>instances = [], tty = cooked, stdin_closed = False, stdin_fifo = False,
      select_ready = True, stdin_reads = reads, app = 0\<rparr>"

section \<open>Properties of TermInReader\<close>

lemma map_of_update_recorder:
  "map_of (instances (update_recorder r f s)) k =
     (if k = r then map_option f (map_of (instances s) r) else map_of (instances s) k)"
proof -
  have "map_of (map (\<lambda>(i, rc). if i = r then (i, f rc) else (i, rc)) xs) k =
          (if k = r then map_option f (map_of xs r) else map_of xs k)" for xs
    by (induction xs) auto
  then show ?thesis by (simp add: update_recorder_def)
qed

lemma update_recorder_fields [simp]:
  "tty (update_recorder r f s) = tty s"
  "stdin_closed (update_recorder r f s) = stdin_closed s"
  "stdin_fifo (update_recorder r f s) = stdin_fifo s"
  "select_ready (update_recorder r f s) = select_ready s"
  "stdin_reads (update_recorder r f s) = stdin_reads s"
  "app (update_recorder r f s) = app s"
  by (simp_all add: update_recorder_def)

lemma update_recorder_commute [simp]:
  "update_recorder r f (s\<lparr>tty := t\<rparr>) = (update_recorder r f s)\<lparr>tty := t\<rparr>"
  "update_recorder r f (s\<lparr>stdin_reads := rs\<rparr>) = (update_recorder r f s)\<lparr>stdin_reads := rs\<rparr>"
  by (simp_all add: update_recorder_def)

lemma instances_fields [simp]:
  "instances (s\<lparr>tty := t\<rparr>) = instances s" "instances (s\<lparr>stdin_reads := rs\<rparr>) = instances s"
  by simp_all

lemma end_recorder_raw:
  assumes "map_of (instances s) r = Some rc" "\<not> normal rc" "old_settings rc = Some t"
    "\<not> stdin_closed s"
  shows "end_recorder r s = (None, update_recorder r (\<lambda>x. x\<lparr>normal := True\<rparr>) (s\<lparr>tty := t\<rparr>))"
  using assms by (simp add: end_recorder_def)

lemma end_recorder_normal:
  assumes "map_of (instances s) r = Some rc" "normal rc"
  shows "end_recorder r s = (None, s)"
  using assms by (simp add: end_recorder_def)

lemma handle_rescue:
  assumes "map_of (instances s) r = Some rc"
    and "run_actions acts (bindings rc [CHR 0x04]) s = (None, s1)"
    and "map_of (instances s1) r = Some rc1" "\<not> normal rc1" "old_settings rc1 = Some t"
    and "\<not> stdin_closed s1"
  shows "handle acts hks r [CHR 0x04] s =
           (Some (SystemExit 1), update_recorder r (\<lambda>x. x\<lparr>normal := True\<rparr>) (s1\<lparr>tty := t\<rparr>))"
  using assms(1,2) end_recorder_raw [OF assms(3-6)] by (simp add: handle_def)

lemma start_rescue:
  assumes live: "map_of (instances s) r = Some rc" and nrm: "normal rc"
    and unbound: "bindings rc [CHR 0x04] = []"
    and alone: "\<not> list_ex (\<lambda>(i, x). i \<noteq> r \<and> \<not> normal x) (instances s)"
    and io: "\<not> stdin_fifo s" "\<not> stdin_closed s" "select_ready s"
    and reads: "stdin_reads s = [CHR 0x04] # rest"
  defines "t0 \<equiv> (case old_settings rc of None \<Rightarrow> setraw (tty s) | Some t \<Rightarrow> t)"
  shows "\<exists>s'. start (Suc fuel) acts hks r s = Some (None, s')
           \<and> map_of (instances s') r = Some (rc\<lparr>old_settings := Some t0, normal := True\<rparr>)
           \<and> tty s' = t0 \<and> stdin_reads s' = rest"
proof -
  let ?t2 = "(setraw (tty s))\<lparr>echo := False, icanon := False, vmin := 0, vtime := 0\<rparr>"
  let ?sa = "update_recorder r (\<lambda>x. x\<lparr>old_settings := Some t0, normal := False\<rparr>) (s\<lparr>tty := ?t2\<rparr>)"
  let ?sb = "update_recorder r (\<lambda>x. x\<lparr>normal := False\<rparr>) ?sa"
  let ?sc = "update_recorder r (\<lambda>x. x\<lparr>normal := True\<rparr>) ((?sb\<lparr>stdin_reads := rest\<rparr>)\<lparr>tty := t0\<rparr>)"
  have old: "(case old_settings rc of None \<Rightarrow> Some (setraw (tty s)) | Some t \<Rightarrow> Some t) = Some t0"
    by (simp add: t0_def split: option.splits)
  have ns: "new_settings r s = (None, ?sa)"
    using live nrm io(1,2) old by (simp add: new_settings_def Let_def)
  have rb: "map_of (instances ?sb) r = Some (rc\<lparr>old_settings := Some t0, normal := False\<rparr>)"
    using live by (simp add: map_of_update_recorder)
  have h: "handle acts hks r [CHR 0x04] (?sb\<lparr>stdin_reads := rest\<rparr>) = (Some (SystemExit 1), ?sc)"
  proof (rule handle_rescue)
    show "map_of (instances (?sb\<lparr>stdin_reads := rest\<rparr>)) r = Some (rc\<lparr>old_settings := Some t0, normal := False\<rparr>)"
      using rb by simp
    show "run_actions acts (bindings (rc\<lparr>old_settings := Some t0, normal := False\<rparr>) [CHR 0x04])
            (?sb\<lparr>stdin_reads := rest\<rparr>) = (None, ?sb\<lparr>stdin_reads := rest\<rparr>)"
      using unbound by simp
    show "map_of (instances (?sb\<lparr>stdin_reads := rest\<rparr>)) r = Some (rc\<lparr>old_settings := Some t0, normal := False\<rparr>)"
      using rb by simp
    show "\<not> normal (rc\<lparr>old_settings := Some t0, normal := False\<rparr>)" by simp
    show "old_settings (rc\<lparr>old_settings := Some t0, normal := False\<rparr>) = Some t0" by simp
    show "\<not> stdin_closed (?sb\<lparr>stdin_reads := rest\<rparr>)" using io(2) by simp
  qed
  have rk: "record_keys (Suc fuel) acts hks r ?sa = Some (Some (SystemExit 1), ?sc)"
    using rb h io(3) reads by (simp add: record_keys_def)
  have rcc: "map_of (instances ?sc) r = Some (rc\<lparr>old_settings := Some t0, normal := True\<rparr>)"
    using live by (simp add: map_of_update_recorder)
  have en: "end_recorder r ?sc = (None, ?sc)"
    using end_recorder_normal [OF rcc] by simp
  have "start (Suc fuel) acts hks r s = Some (None, ?sc)"
    using alone ns rk en by (simp add: start_def swallowed_def)
  moreover have "tty ?sc = t0" "stdin_reads ?sc = rest" by simp_all
  ultimately show ?thesis using rcc by blast
qed

text \<open>
  Claim C7 (amended). When a burst equals CTRL_D, \<open>_handle\<close> first runs the actions
  bound to CTRL_D (none when it is unbound); when they return, it ends the recorder, which
  restores the saved terminal attributes and sets \<open>normal\<close>, and raises \<open>SystemExit(1)\<close>,
  whether CTRL_D is bound or not. \<open>start\<close> catches \<open>SystemExit\<close>: a recorder run by
  \<open>start\<close> that reads an unbound CTRL_D stops reading, leaves the terminal with the
  saved attributes and \<open>start\<close> returns normally.
\<close>

theorem rescue_key_amended:
  assumes "map_of (instances s) r = Some rc"
  shows "(run_actions acts (bindings rc [CHR 0x04]) s = (None, s1)
            \<and> map_of (instances s1) r = Some rc1 \<and> \<not> normal rc1 \<and> old_settings rc1 = Some t
            \<and> \<not> stdin_closed s1
          \<longrightarrow> handle acts hks r [CHR 0x04] s =
                (Some (SystemExit 1), update_recorder r (\<lambda>x. x\<lparr>normal := True\<rparr>) (s1\<lparr>tty := t\<rparr>)))
     \<and> (normal rc \<and> bindings rc [CHR 0x04] = []
            \<and> \<not> list_ex (\<lambda>(i, x). i \<noteq> r \<and> \<not> normal x) (instances s)
            \<and> \<not> stdin_fifo s \<and> \<not> stdin_closed s \<and> select_ready s
            \<and> stdin_reads s = [CHR 0x04] # rest
          \<longrightarrow> (\<exists>s'. start (Suc fuel) acts hks r s = Some (None, s')
                 \<and> map_of (instances s') r =
                     Some (rc\<lparr>old_settings := Some (case old_settings rc of None \<Rightarrow> setraw (tty s) | Some t \<Rightarrow> t),
                              normal := True\<rparr>)
                 \<and> tty s' = (case old_settings rc of None \<Rightarrow> setraw (tty s) | Some t \<Rightarrow> t)
                 \<and> stdin_reads s' = rest))"
  using handle_rescue [OF assms, of acts s1 rc1 t hks]
    start_rescue [OF assms, of rest fuel acts hks]
  by blast

theorem rescue_key_amended_witness:
  "map_option fst (start 1 idle_action idle_hook 0 (new_recorder 0 [] (fresh_process [[CHR 0x04], ''x''])))
     = Some None
   \<and> map_option (tty \<circ> snd) (start 1 idle_action idle_hook 0 (new_recorder 0 [] (fresh_process [[CHR 0x04], ''x''])))
     = Some (setraw cooked)
   \<and> map_option (stdin_reads \<circ> snd) (start 1 idle_action idle_hook 0 (new_recorder 0 [] (fresh_process [[CHR 0x04], ''x''])))
     = Some [''x'']
   \<and> handle idle_action idle_hook 0 [CHR 0x04]
        ((fresh_process [])\<lparr>instances := [(0, (recorder_init [])\<lparr>normal := False, old_settings := Some (setraw cooked)\<rparr>)]\<rparr>)
     = (Some (SystemExit 1),
        update_recorder 0 (\<lambda>x. x\<lparr>normal := True\<rparr>)
          ((fresh_process [])\<lparr>instances := [(0, (recorder_init [])\<lparr>normal := False, old_settings := Some (setraw cooked)\<rparr>)],
                               tty := setraw cooked\<rparr>))"
proof -
  let ?s = "new_recorder 0 [] (fresh_process [[CHR 0x04], ''x''])"
  let ?rc = "(recorder_init [])\<lparr>normal := False, old_settings := Some (setraw cooked)\<rparr>"
  let ?raw = "(fresh_process [])\<lparr>instances := [(0, ?rc)]\<rparr>"
  have live_raw: "map_of (instances ?raw) 0 = Some ?rc" by simp
  have pre_raw: "run_actions idle_action (bindings ?rc [CHR 0x04]) ?raw = (None, ?raw)
            \<and> map_of (instances ?raw) 0 = Some ?rc \<and> \<not> normal ?rc
            \<and> old_settings ?rc = Some (setraw cooked) \<and> \<not> stdin_closed ?raw"
    by (simp add: recorder_init_def fresh_process_def)
  note h = rescue_key_amended [OF live_raw, of idle_action ?raw ?rc "setraw cooked" idle_hook,
      THEN conjunct1, THEN mp, OF pre_raw]
  have live: "map_of (instances ?s) 0 = Some (recorder_init [])"
    by (simp add: new_recorder_def fresh_process_def)
  have pre: "normal (recorder_init []) \<and> bindings (recorder_init []) [CHR 0x04] = []
            \<and> \<not> list_ex (\<lambda>(i, x). i \<noteq> 0 \<and> \<not> normal x) (instances ?s)
            \<and> \<not> stdin_fifo ?s \<and> \<not> stdin_closed ?s \<and> select_ready ?s
            \<and> stdin_reads ?s = [CHR 0x04] # [''x'']"
    by (simp add: new_recorder_def fresh_process_def recorder_init_def)
  have old: "old_settings (recorder_init []) = None" "tty ?s = cooked"
    by (simp_all add: recorder_init_def new_recorder_def fresh_process_def)
  note t = rescue_key_amended [OF live, of idle_action ?s "recorder_init []" cooked idle_hook "[''x'']" 0,
      THEN conjunct2, THEN mp, OF pre]
  then obtain s' where "start (Suc 0) idle_action idle_hook 0 ?s = Some (None, s')"
    "tty s' = setraw cooked" "stdin_reads s' = [''x'']"
    by (auto simp: old)
  with h show ?thesis by simp
qed

text \<open>
  The claim as stated fails. With CTRL_D bound, as the FuzzyFinder binds it, the bound
  action fires and the rescue still ends the recorder and raises \<open>SystemExit(1)\<close>. And
  under \<open>start\<close> the rescue does not terminate the process: \<open>start\<close> returns normally.
\<close>

theorem rescue_fires_when_bound:
  "bindings (bind_ctrl (recorder_init []) CTRL_D 7) [CHR 0x04] = [7]
   \<and> fst (handle counting_action idle_hook 0 [CHR 0x04]
        ((fresh_process [])\<lparr>instances := [(0, (bind_ctrl (recorder_init []) CTRL_D 7)
                                              \<lparr>normal := False, old_settings := Some (setraw cooked)\<rparr>)]\<rparr>))
       = Some (SystemExit 1)
   \<and> app (snd (handle counting_action idle_hook 0 [CHR 0x04]
        ((fresh_process [])\<lparr>instances := [(0, (bind_ctrl (recorder_init []) CTRL_D 7)
                                              \<lparr>normal := False, old_settings := Some (setraw cooked)\<rparr>)]\<rparr>)))
       = 1
   \<and> map_option fst (start 1 idle_action idle_hook 0 (new_recorder 0 [] (fresh_process [[CHR 0x04]])))
       = Some None"
  by (simp add: bind_ctrl_def bind_str_def recorder_init_def handle_def counting_action_def
      end_recorder_def update_recorder_def fresh_process_def start_def new_recorder_def
      new_settings_def record_keys_def idle_action_def idle_hook_def swallowed_def Let_def)

text \<open>
  Claim C8. \<open>start()\<close> on a recorder while another live recorder is not in its original
  line discipline raises the conflict error, and the whole process state is as before:
  no attribute of the terminal has changed, and the other recorder has kept its saved
  attributes and its \<open>normal\<close> flag.
\<close>

theorem start_conflict:
  assumes "(other, rc) \<in> set (instances s)" "other \<noteq> r" "\<not> normal rc"
  shows "start fuel acts hks r s = Some (Some (TypeError ''conflicting terminal recorders''), s)"
proof -
  from assms have "list_ex (\<lambda>(i, x). i \<noteq> r \<and> \<not> normal x) (instances s)"
    by (auto simp: list_ex_iff)
  then show ?thesis by (simp add: start_def)
qed

theorem start_conflict_witness:
  "new_settings 0 (new_recorder 1 [] (new_recorder 0 [] (fresh_process [])))
     = (None, (fresh_process [])
          \<lparr>instances := [(0, (recorder_init [])\<lparr>old_settings := Some (setraw cooked), normal := False\<rparr>),
                          (1, recorder_init [])],
           tty := (setraw cooked)\<lparr>echo := False, icanon := False, vmin := 0, vtime := 0\<rparr>\<rparr>)
   \<and> start 5 idle_action idle_hook 1
        ((fresh_process [])
          \<lparr>instances := [(0, (recorder_init [])\<lparr>old_settings := Some (setraw cooked), normal := False\<rparr>),
                          (1, recorder_init [])],
           tty := (setraw cooked)\<lparr>echo := False, icanon := False, vmin := 0, vtime := 0\<rparr>\<rparr>)
     = Some (Some (TypeError ''conflicting terminal recorders''),
        (fresh_process [])
          \<lparr>instances := [(0, (recorder_init [])\<lparr>old_settings := Some (setraw cooked), normal := False\<rparr>),
                          (1, recorder_init [])],
           tty := (setraw cooked)\<lparr>echo := False, icanon := False, vmin := 0, vtime := 0\<rparr>\<rparr>)"
proof -
  let ?s = "(fresh_process [])
          \<lparr>instances := [(0, (recorder_init [])\<lparr>old_settings := Some (setraw cooked), normal := False\<rparr>),
                          (1, recorder_init [])],
           tty := (setraw cooked)\<lparr>echo := False, icanon := False, vmin := 0, vtime := 0\<rparr>\<rparr>"
  have a: "new_settings 0 (new_recorder 1 [] (new_recorder 0 [] (fresh_process []))) = (None, ?s)"
    by (simp add: new_settings_def new_recorder_def fresh_process_def recorder_init_def
        update_recorder_def Let_def)
  have m: "(0, (recorder_init [])\<lparr>old_settings := Some (setraw cooked), normal := False\<rparr>) \<in> set (instances ?s)"
    by simp
  have n: "(0::nat) \<noteq> 1" "\<not> normal ((recorder_init [])\<lparr>old_settings := Some (setraw cooked), normal := False\<rparr>)"
    by simp_all
  show ?thesis
    using a start_conflict [OF m n, of 5 idle_action idle_hook] by simp
qed

end
